theory Spec2Isabelle
  imports Main "HOL-Library.Word"
begin

section \<open>example.cpp: the user service\<close>

text \<open>
  \<^verbatim>\<open>StrongType<T, Tag>\<close> wraps one value; the tag is a phantom type and carries no
  data. \<^verbatim>\<open>UserId\<close> wraps a \<^verbatim>\<open>uint64_t\<close>, \<^verbatim>\<open>UserName\<close> a string.
\<close>

datatype 't StrongType = StrongType (get: 't)

type_synonym UserId = "64 word StrongType"
type_synonym UserName = "string StrongType"

text \<open>
  The class \<^verbatim>\<open>User\<close>. A name cannot end in an underscore here, so a member such as
  \<^verbatim>\<open>id_\<close> is written \<open>id_'\<close>. The getter \<^verbatim>\<open>id()\<close> returns the field
  \<^verbatim>\<open>id_\<close>, so \<^verbatim>\<open>user.id().get()\<close> is \<open>get (id_' user)\<close>. The time point is a
  tick count.
\<close>

record User =
  id_' :: UserId
  name_' :: UserName
  email_' :: string
  is_active_' :: bool
  created_at_' :: int

text \<open>The constructor of \<^verbatim>\<open>User\<close>; \<open>now\<close> is the clock reading it takes.\<close>

definition User_new :: "UserId \<Rightarrow> UserName \<Rightarrow> string \<Rightarrow> int \<Rightarrow> User" where
  "User_new uid name email now =
     \<lparr>id_' = uid, name_' = name, email_' = email, is_active_' = True, created_at_' = now\<rparr>"

text \<open>
  \<^verbatim>\<open>AsyncUserService\<close> owns the vector \<^verbatim>\<open>users_\<close>. Each member function runs
  its lambda under the lock and hands the value back through a future; the model gives the
  value the lambda computes together with the service after the call.
\<close>

record AsyncUserService =
  users_' :: "User list"

text \<open>
  \<^verbatim>\<open>std::find_if\<close> returns the position of the first element that satisfies the
  predicate, and the end position (the length) when there is none.
\<close>

fun find_if :: "('a \<Rightarrow> bool) \<Rightarrow> 'a list \<Rightarrow> nat" where
  "find_if P [] = 0"
| "find_if P (x # xs) = (if P x then 0 else Suc (find_if P xs))"

fun any_of :: "('a \<Rightarrow> bool) \<Rightarrow> 'a list \<Rightarrow> bool" where
  "any_of P [] = False"
| "any_of P (x # xs) = (if P x then True else any_of P xs)"

definition find_user_async :: "AsyncUserService \<Rightarrow> UserId \<Rightarrow> User option \<times> AsyncUserService" where
  "find_user_async svc uid =
     (let it = find_if (\<lambda>user. get (id_' user) = get uid) (users_' svc)
      in if it \<noteq> length (users_' svc) then (Some (users_' svc ! it), svc)
         else (None, svc))"

definition add_user_async :: "AsyncUserService \<Rightarrow> User \<Rightarrow> bool \<times> AsyncUserService" where
  "add_user_async svc user =
     (let exists = any_of (\<lambda>existing. get (id_' existing) = get (id_' user)) (users_' svc)
      in if \<not> exists then (True, svc\<lparr>users_' := users_' svc @ [user]\<rparr>)
         else (False, svc))"

section \<open>example.cpp: SmartArray\<close>

text \<open>
  A \<^verbatim>\<open>SmartArray<T>\<close> holds a heap array \<^verbatim>\<open>data_\<close> of \<^verbatim>\<open>capacity_\<close> slots, of which
  the first \<^verbatim>\<open>size_\<close> are in use. The array is a list with one entry per allocated slot
  (the empty list for a null pointer). \<^verbatim>\<open>size_t\<close> is 64 bits wide: the two places
  where the code does arithmetic on it wrap modulo \<open>2 ^ 64\<close>.

  Two things can go wrong: \<^verbatim>\<open>operator[]\<close> throws \<^verbatim>\<open>std::out_of_range\<close>, and an
  access to \<^verbatim>\<open>data_[i]\<close> outside the allocated slots is undefined behaviour.
  Allocation itself is taken to succeed.
\<close>

datatype cpp_error = OutOfRange | Undefined

record 'a SmartArray =
  data_' :: "'a list"
  size_' :: nat
  capacity_' :: nat

definition SIZE_WRAP :: nat where
  "SIZE_WRAP = 2 ^ 64"

text \<open>
  \<^verbatim>\<open>std::make_unique<T[]>(n)\<close> value-initialises \<open>n\<close> slots; \<open>dflt\<close> stands for
  the value-initialised \<^verbatim>\<open>T\<close>.
\<close>

definition make_unique :: "'a \<Rightarrow> nat \<Rightarrow> 'a list" where
  "make_unique dflt n = replicate n dflt"

definition SmartArray_new :: "'a \<Rightarrow> nat \<Rightarrow> 'a SmartArray" where
  "SmartArray_new dflt initial_capacity =
     \<lparr>data_' = make_unique dflt initial_capacity, size_' = 0, capacity_' = initial_capacity\<rparr>"

text \<open>The copy loop of \<^verbatim>\<open>resize\<close>: \<^verbatim>\<open>for (i = 0; i < size_; ++i) new_data[i] = data_[i]\<close>.\<close>

function resize_loop :: "nat \<Rightarrow> nat \<Rightarrow> 'a list \<Rightarrow> 'a list \<Rightarrow> cpp_error + 'a list" where
  "resize_loop i n old_data new_data =
     (if i < n then
        (if i < length old_data \<and> i < length new_data
         then resize_loop (i + 1) n old_data (new_data[i := old_data ! i])
         else Inl Undefined)
      else Inr new_data)"
  by pat_completeness auto
termination
  by (relation "measure (\<lambda>(i, n, old_data, new_data). n - i)") auto

declare resize_loop.simps [simp del]

definition resize :: "'a \<Rightarrow> 'a SmartArray \<Rightarrow> nat \<Rightarrow> cpp_error + 'a SmartArray" where
  "resize dflt s new_capacity =
     (case resize_loop 0 (size_' s) (data_' s) (make_unique dflt new_capacity) of
        Inl e \<Rightarrow> Inl e
      | Inr new_data \<Rightarrow> Inr (s\<lparr>data_' := new_data, capacity_' := new_capacity\<rparr>))"

definition push_back :: "'a \<Rightarrow> 'a SmartArray \<Rightarrow> 'a \<Rightarrow> cpp_error + 'a SmartArray" where
  "push_back dflt s item =
     (case (if size_' s \<ge> capacity_' s
            then resize dflt s ((capacity_' s * 2) mod SIZE_WRAP)
            else Inr s) of
        Inl e \<Rightarrow> Inl e
      | Inr s1 \<Rightarrow>
          if size_' s1 < length (data_' s1)
          then Inr (s1\<lparr>data_' := (data_' s1)[size_' s1 := item],
                       size_' := (size_' s1 + 1) mod SIZE_WRAP\<rparr>)
          else Inl Undefined)"

text \<open>
  \<^verbatim>\<open>operator[]\<close>, mutable and const: the two overloads have the same body. The
  reference they return is modelled by the element it refers to, and the array after the
  call is returned with it.
\<close>

definition subscript :: "'a SmartArray \<Rightarrow> nat \<Rightarrow> cpp_error + ('a \<times> 'a SmartArray)" where
  "subscript s index =
     (if index \<ge> size_' s then Inl OutOfRange
      else if index < length (data_' s) then Inr (data_' s ! index, s)
      else Inl Undefined)"

definition subscript_const :: "'a SmartArray \<Rightarrow> nat \<Rightarrow> cpp_error + ('a \<times> 'a SmartArray)" where
  "subscript_const s index =
     (if index \<ge> size_' s then Inl OutOfRange
      else if index < length (data_' s) then Inr (data_' s ! index, s)
      else Inl Undefined)"



text \<open>
  The class invariant: the slots in use are allocated, and the array has as many slots as
  \<^verbatim>\<open>capacity_\<close> says.
\<close>

definition class_inv :: "'a SmartArray \<Rightarrow> bool" where
  "class_inv s \<longleftrightarrow> size_' s \<le> capacity_' s \<and> length (data_' s) = capacity_' s"



section \<open>example.c: the data\<close>

text \<open>
  The toy HTTP server. Its strings live in fixed-size \<^verbatim>\<open>char\<close> arrays; a field of the
  model holds the C string stored in the array (the characters before the terminating NUL),
  which fits an array of \<open>n\<close> bytes when it is shorter than \<open>n\<close>.
\<close>

definition MAX_BUFFER_SIZE :: nat where
  "MAX_BUFFER_SIZE = 1024"

definition MAX_CLIENTS :: nat where
  "MAX_CLIENTS = 100"

record client_info_t =
  socket_fd :: int
  client_ip :: string
  port :: int
  connect_time :: int

record http_request_t =
  "method" :: string
  path :: string
  version :: string
  headers :: string
  body :: string

text \<open>A request structure with all fields empty.\<close>

definition zero_request :: http_request_t where
  "zero_request = \<lparr>method = [], path = [], version = [], headers = [], body = []\<rparr>"

record http_response_t =
  status_code :: "32 word"
  status_message :: string
  response_headers :: string
  response_body :: string
  content_length :: nat

text \<open>
  \<^verbatim>\<open>int status_code\<close> is a 32-bit word, read as signed by \<open>sint\<close>. The fields
  \<open>response_headers\<close> and \<open>response_body\<close> are \<^verbatim>\<open>headers\<close> and \<^verbatim>\<open>body\<close> in
  the source, names the request has taken.

  What C leaves undefined is a fault of the model: a write past the end of an array, and a
  read through a null pointer.
\<close>

datatype c_fault = BufferOverflow | NullDereference

definition NUL :: char where "NUL = CHR 0x00"
definition CR :: char where "CR = CHR 0x0D"
definition LF :: char where "LF = CHR 0x0A"

text \<open>
  A \<^verbatim>\<open>const char *\<close> argument is the bytes it points to; the C string it denotes ends
  before the first NUL.
\<close>

definition cstr :: "string \<Rightarrow> string" where
  "cstr bytes = takeWhile (\<lambda>c. c \<noteq> NUL) bytes"

text \<open>\<^verbatim>\<open>isspace\<close> in the C locale: space, \<^verbatim>\<open>\t \n \v \f \r\<close>.\<close>

definition isspace :: "char \<Rightarrow> bool" where
  "isspace c \<longleftrightarrow> c = CHR '' '' \<or> c = CHR 0x09 \<or> c = CHR 0x0A \<or> c = CHR 0x0B \<or>
     c = CHR 0x0C \<or> c = CHR 0x0D"

text \<open>
  \<^verbatim>\<open>strtok_r(str, delim, &saveptr)\<close>, on the string still to be scanned (\<^verbatim>\<open>str\<close> on
  the first call, \<^verbatim>\<open>*saveptr\<close> afterwards): it skips leading delimiters, returns
  \<^verbatim>\<open>NULL\<close> when nothing is left, and otherwise returns the token up to the next delimiter
  and leaves \<^verbatim>\<open>saveptr\<close> behind that delimiter.
\<close>

definition strtok_r :: "string \<Rightarrow> string \<Rightarrow> (string \<times> string) option" where
  "strtok_r s delim =
     (let s1 = dropWhile (\<lambda>c. c \<in> set delim) s
      in if s1 = [] then None
         else Some (takeWhile (\<lambda>c. c \<notin> set delim) s1,
                    drop 1 (dropWhile (\<lambda>c. c \<notin> set delim) s1)))"

text \<open>
  The conversion \<^verbatim>\<open>%Ns\<close> of \<^verbatim>\<open>sscanf\<close>: it skips white space, fails at the end of
  the input, and otherwise stores the non-space characters that follow, at most \<open>N\<close> of
  them; the rest of the input stays for the next directive. The blank between two
  conversions of the format skips white space, which the next \<^verbatim>\<open>%s\<close> does anyway.
\<close>

definition scan_s :: "nat \<Rightarrow> string \<Rightarrow> (string \<times> string) option" where
  "scan_s width input =
     (let s1 = dropWhile isspace input;
          field = take width (takeWhile (\<lambda>c. \<not> isspace c) s1)
      in if s1 = [] then None else Some (field, drop (length field) s1))"

text \<open>
  \<^verbatim>\<open>sscanf(line, "%15s %255s %15s", request->method, request->path, request->version)\<close>:
  the number of fields stored (\<^verbatim>\<open>EOF\<close> when the input ends before the first), and the
  request with the fields stored so far.
\<close>

definition EOF :: int where "EOF = - 1"

definition sscanf_request_line :: "string \<Rightarrow> http_request_t \<Rightarrow> int \<times> http_request_t" where
  "sscanf_request_line line request =
     (case scan_s 15 line of
        None \<Rightarrow> (EOF, request)
      | Some (m, rest1) \<Rightarrow>
          (case scan_s 255 rest1 of
             None \<Rightarrow> (1, request\<lparr>method := m\<rparr>)
           | Some (p, rest2) \<Rightarrow>
               (case scan_s 15 rest2 of
                  None \<Rightarrow> (2, request\<lparr>method := m, path := p\<rparr>)
                | Some (v, rest3) \<Rightarrow> (3, request\<lparr>method := m, path := p, version := v\<rparr>))))"

text \<open>
  \<^verbatim>\<open>strcpy\<close> and \<^verbatim>\<open>strcat\<close> into an array of \<open>capacity\<close> bytes: the result and its NUL
  must fit.
\<close>

definition strcpy :: "nat \<Rightarrow> string \<Rightarrow> c_fault + string" where
  "strcpy capacity src = (if length src < capacity then Inr src else Inl BufferOverflow)"

definition strcat :: "nat \<Rightarrow> string \<Rightarrow> string \<Rightarrow> c_fault + string" where
  "strcat capacity dest src =
     (if length dest + length src < capacity then Inr (dest @ src) else Inl BufferOverflow)"

text \<open>
  The loop of \<^verbatim>\<open>parse_http_request\<close> over the remaining lines:
  \<^verbatim>\<open>while ((line = strtok_r(NULL, "\r\n", &saveptr)) != NULL) { ... }\<close>.
\<close>

function parse_lines :: "string \<Rightarrow> int \<Rightarrow> http_request_t \<Rightarrow> c_fault + http_request_t" where
  "parse_lines saveptr in_headers request =
     (case strtok_r saveptr [CR, LF] of
        None \<Rightarrow> Inr request
      | Some (line, saveptr') \<Rightarrow>
          if length line = 0 then parse_lines saveptr' 0 request
          else if in_headers \<noteq> 0 then
            (if length (headers request) + length line + 2 < MAX_BUFFER_SIZE then
               (case strcat MAX_BUFFER_SIZE (headers request) line of
                  Inl e \<Rightarrow> Inl e
                | Inr h1 \<Rightarrow>
                    (case strcat MAX_BUFFER_SIZE h1 [LF] of
                       Inl e \<Rightarrow> Inl e
                     | Inr h2 \<Rightarrow> parse_lines saveptr' in_headers (request\<lparr>headers := h2\<rparr>)))
             else parse_lines saveptr' in_headers request)
          else
            (if length (body request) + length line + 1 < MAX_BUFFER_SIZE then
               (case strcat MAX_BUFFER_SIZE (body request) line of
                  Inl e \<Rightarrow> Inl e
                | Inr b1 \<Rightarrow> parse_lines saveptr' in_headers (request\<lparr>body := b1\<rparr>))
             else parse_lines saveptr' in_headers request))"
  by pat_completeness auto
termination
proof -
  have shorter: "length rest < length s" if "strtok_r s delim = Some (tok, rest)"
    for s delim tok rest
  proof -
    let ?s1 = "dropWhile (\<lambda>c. c \<in> set delim) s"
    from that have ne: "?s1 \<noteq> []"
      and rest: "rest = drop 1 (dropWhile (\<lambda>c. c \<notin> set delim) ?s1)"
      by (auto simp: strtok_r_def Let_def split: if_splits)
    from ne have "hd ?s1 \<notin> set delim" using hd_dropWhile [of "\<lambda>c. c \<in> set delim" s] by simp
    with ne have "length (dropWhile (\<lambda>c. c \<notin> set delim) ?s1) < length ?s1"
      by (cases ?s1) (auto intro: le_imp_less_Suc length_dropWhile_le)
    moreover have "length ?s1 \<le> length s" by (rule length_dropWhile_le)
    ultimately show ?thesis using rest by simp
  qed
  show ?thesis
    by (relation "measure (\<lambda>(saveptr, in_headers, request). length saveptr)")
      (auto dest: shorter)
qed

declare parse_lines.simps [simp del]

text \<open>\<^verbatim>\<open>strdup\<close> copies the C string, or returns \<^verbatim>\<open>NULL\<close> when the heap is exhausted.\<close>

definition strdup :: "bool \<Rightarrow> string \<Rightarrow> string option" where
  "strdup ok s = (if ok then Some (cstr s) else None)"

text \<open>
  \<^verbatim>\<open>parse_http_request\<close> returns its \<^verbatim>\<open>int\<close> result and the request structure as it
  leaves it. \<open>heap_ok\<close> says whether \<^verbatim>\<open>strdup\<close> succeeds.
\<close>

definition parse_http_request ::
  "bool \<Rightarrow> string option \<Rightarrow> http_request_t option \<Rightarrow> c_fault + (int \<times> http_request_t option)" where
  "parse_http_request heap_ok raw_request request =
     (case (raw_request, request) of
        (Some raw, Some req) \<Rightarrow>
          (case strdup heap_ok raw of
             None \<Rightarrow> Inr (- 1, Some req)
           | Some request_copy \<Rightarrow>
               (case strtok_r request_copy [CR, LF] of
                  None \<Rightarrow> Inr (- 1, Some req)
                | Some (line, saveptr) \<Rightarrow>
                    (case sscanf_request_line line req of
                       (n, req1) \<Rightarrow>
                         if n \<noteq> 3 then Inr (- 1, Some req1)
                         else
                           (case strcpy MAX_BUFFER_SIZE [] of
                              Inl e \<Rightarrow> Inl e
                            | Inr h0 \<Rightarrow>
                                (case strcpy MAX_BUFFER_SIZE [] of
                                   Inl e \<Rightarrow> Inl e
                                 | Inr b0 \<Rightarrow>
                                     (case parse_lines saveptr 1 (req1\<lparr>headers := h0, body := b0\<rparr>) of
                                        Inl e \<Rightarrow> Inl e
                                      | Inr req2 \<Rightarrow> Inr (0, Some req2)))))))
      | _ \<Rightarrow> Inr (- 1, request))"

text \<open>Decimal notation, as \<^verbatim>\<open>%d\<close> and \<^verbatim>\<open>%zu\<close> print it.\<close>

fun digit :: "nat \<Rightarrow> char" where
  "digit n = char_of (48 + n)"

function dec_nat :: "nat \<Rightarrow> string" where
  "dec_nat n = (if n < 10 then [digit n] else dec_nat (n div 10) @ [digit (n mod 10)])"
  by pat_completeness auto
termination
  by (relation "measure (\<lambda>n. n)") auto

declare dec_nat.simps [simp del]

definition dec_int :: "int \<Rightarrow> string" where
  "dec_int i = (if i < 0 then CHR ''-'' # dec_nat (nat (- i)) else dec_nat (nat i))"

text \<open>
  \<^verbatim>\<open>snprintf(buf, n, ...)\<close> stores at most \<open>n - 1\<close> characters of the formatted text.
\<close>

definition snprintf :: "nat \<Rightarrow> string \<Rightarrow> string" where
  "snprintf n formatted = take (n - 1) formatted"

text \<open>The \<^verbatim>\<open>switch\<close> of \<^verbatim>\<open>build_http_response\<close>.\<close>

definition status_message_for :: "32 word \<Rightarrow> string" where
  "status_message_for code =
     (if code = 200 then ''OK''
      else if code = 404 then ''Not Found''
      else if code = 500 then ''Internal Server Error''
      else ''Unknown'')"

text \<open>The format string of \<^verbatim>\<open>build_http_response\<close> with its four arguments filled in.\<close>

definition response_format :: "32 word \<Rightarrow> string \<Rightarrow> string \<Rightarrow> nat \<Rightarrow> string" where
  "response_format code status_msg content_type body_length =
     ''HTTP/1.1 '' @ dec_int (sint code) @ '' '' @ status_msg @ [CR, LF] @
     content_type @ [CR, LF] @
     ''Content-Length: '' @ dec_nat body_length @ [CR, LF] @
     ''Connection: close'' @ [CR, LF] @
     ''Server: QuickServer/1.0'' @ [CR, LF] @
     [CR, LF]"

text \<open>
  \<^verbatim>\<open>build_http_response\<close> fills the structure \<open>response\<close> points to. A null
  \<^verbatim>\<open>content_type\<close> prints as the empty string; a null \<^verbatim>\<open>body\<close> is handed to
  \<^verbatim>\<open>strlen\<close>.
\<close>

definition build_http_response ::
  "http_response_t \<Rightarrow> 32 word \<Rightarrow> string option \<Rightarrow> string option \<Rightarrow> c_fault + http_response_t" where
  "build_http_response response code content_type body_arg =
     (let status_msg = status_message_for code;
          r1 = response\<lparr>status_code := code\<rparr>
      in case strcpy 64 status_msg of
           Inl e \<Rightarrow> Inl e
         | Inr m \<Rightarrow>
             (case body_arg of
                None \<Rightarrow> Inl NullDereference
              | Some b \<Rightarrow>
                  (let r2 = r1\<lparr>status_message := m,
                              response_headers :=
                                snprintf MAX_BUFFER_SIZE
                                  (response_format code status_msg
                                     (case content_type of Some ct \<Rightarrow> ct | None \<Rightarrow> [])
                                     (length b))\<rparr>
                   in case strcpy MAX_BUFFER_SIZE b of
                        Inl e \<Rightarrow> Inl e
                      | Inr b1 \<Rightarrow> Inr (r2\<lparr>response_body := b1, content_length := length b\<rparr>))))"

text \<open>A response structure with every field zero.\<close>

definition zero_response :: http_response_t where
  "zero_response =
     \<lparr>status_code = 0, status_message = [], response_headers = [], response_body = [],
      content_length = 0\<rparr>"

text \<open>
  \<^verbatim>\<open>strncmp\<close> on C strings: the difference of the first two characters that differ among
  the first \<open>n\<close>, the end of a string counting as NUL.
\<close>

fun strncmp :: "string \<Rightarrow> string \<Rightarrow> nat \<Rightarrow> int" where
  "strncmp s1 s2 0 = 0"
| "strncmp [] [] (Suc n) = 0"
| "strncmp [] (b # bs) (Suc n) = - int (of_char b)"
| "strncmp (a # as) [] (Suc n) = int (of_char a)"
| "strncmp (a # as) (b # bs) (Suc n) =
     (if a = b then strncmp as bs n else int (of_char a) - int (of_char b))"

section \<open>example.c: the server\<close>

text \<open>
  The file-scope variables. They are \<^verbatim>\<open>static\<close>, so only the functions of
  \<^verbatim>\<open>example.c\<close> can name them.
\<close>

record globals =
  server_socket :: int
  server_running :: int
  clients :: "client_info_t list"
  client_count :: int

definition zero_client :: client_info_t where
  "zero_client = \<lparr>socket_fd = 0, client_ip = [], port = 0, connect_time = 0\<rparr>"

definition initial_globals :: globals where
  "initial_globals =
     \<lparr>server_socket = - 1, server_running = 1,
      clients = replicate MAX_CLIENTS zero_client, client_count = 0\<rparr>"

text \<open>
  What the server does to the outside world is recorded as a trace of calls, in order:
  \<^verbatim>\<open>log_message\<close> (level and format), \<^verbatim>\<open>perror\<close>, \<^verbatim>\<open>printf\<close>, \<^verbatim>\<open>accept\<close> (with
  the value it returned), \<^verbatim>\<open>recv\<close> (socket and length asked for), \<^verbatim>\<open>close\<close>, and the
  calls of \<^verbatim>\<open>handle_api_request\<close> and \<^verbatim>\<open>serve_static_file\<close>. These two and
  \<^verbatim>\<open>log_message\<close> are declared in \<^verbatim>\<open>example.c\<close> and defined nowhere; a call of one of
  them is an event of the trace and nothing more, and it returns. The text of a
  \<^verbatim>\<open>printf\<close> is given without its line ends and pictographs. There is no event for
  starting a thread or a process: \<^verbatim>\<open>example.c\<close> has no such call.
\<close>

datatype event =
    Log string string
  | Perror string
  | Print string
  | Accept int
  | Recv int nat
  | Close int
  | ApiRequest int http_request_t
  | StaticFile int string

text \<open>
  What a call of \<^verbatim>\<open>handle_client_connection\<close> takes from its environment: the bytes the
  peer has sent (\<open>None\<close> when \<^verbatim>\<open>recv\<close> fails), whether \<^verbatim>\<open>strdup\<close> succeeds, and the
  contents of the uninitialised local \<^verbatim>\<open>request\<close>.
\<close>

record conn_env =
  pending :: "string option"
  heap_ok :: bool
  stack_request :: http_request_t

text \<open>
  \<^verbatim>\<open>recv(fd, buffer, len, 0)\<close> stores at most \<open>len\<close> of the incoming bytes at the start of
  the buffer and returns their number (0 when the peer has closed), or \<open>-1\<close>.
\<close>

definition recv :: "string option \<Rightarrow> string \<Rightarrow> nat \<Rightarrow> c_fault + (int \<times> string)" where
  "recv incoming buffer len =
     (case incoming of
        None \<Rightarrow> Inr (- 1, buffer)
      | Some bytes \<Rightarrow>
          if len \<le> length buffer
          then (let got = take len bytes
                in Inr (int (length got), got @ drop (length got) buffer))
          else Inl BufferOverflow)"

text \<open>The assignment \<^verbatim>\<open>buffer[i] = c\<close>.\<close>

definition store :: "string \<Rightarrow> int \<Rightarrow> char \<Rightarrow> c_fault + string" where
  "store buffer i c =
     (if 0 \<le> i \<and> nat i < length buffer then Inr (buffer[nat i := c]) else Inl BufferOverflow)"

text \<open>
  The first part of \<^verbatim>\<open>handle_client_connection\<close>: \<^verbatim>\<open>memset(buffer, 0, sizeof(buffer))\<close>,
  \<^verbatim>\<open>recv(client_socket, buffer, sizeof(buffer) - 1, 0)\<close> and, when bytes have
  arrived, \<^verbatim>\<open>buffer[bytes_received] = '\0'\<close>.
\<close>

definition receive_request :: "conn_env \<Rightarrow> c_fault + (int \<times> string)" where
  "receive_request env =
     (let buffer = replicate MAX_BUFFER_SIZE NUL
      in case recv (pending env) buffer (MAX_BUFFER_SIZE - 1) of
           Inl e \<Rightarrow> Inl e
         | Inr (bytes_received, buffer1) \<Rightarrow>
             if bytes_received \<le> 0 then Inr (bytes_received, buffer1)
             else (case store buffer1 bytes_received NUL of
                     Inl e \<Rightarrow> Inl e
                   | Inr buffer2 \<Rightarrow> Inr (bytes_received, buffer2)))"

text \<open>The routing: \<^verbatim>\<open>strncmp(request.path, "/api/", 5) == 0\<close>.\<close>

definition route :: "int \<Rightarrow> http_request_t \<Rightarrow> event" where
  "route client_socket request =
     (if strncmp (path request) ''/api/'' 5 = 0 then ApiRequest client_socket request
      else StaticFile client_socket (path request))"

text \<open>
  \<^verbatim>\<open>handle_client_connection\<close>, on the globals and the trace so far. Its address
  argument only feeds the first log message and is left out.
\<close>

definition handle_client_connection ::
  "conn_env \<Rightarrow> int \<Rightarrow> globals \<times> event list \<Rightarrow> c_fault + (globals \<times> event list)" where
  "handle_client_connection env client_socket st =
     (case st of (g, t) \<Rightarrow>
        (let t1 = t @ [Log ''INFO'' ''New connection from %s:%d'',
                       Recv client_socket (MAX_BUFFER_SIZE - 1)]
         in case receive_request env of
              Inl e \<Rightarrow> Inl e
            | Inr (bytes_received, buffer) \<Rightarrow>
                if bytes_received \<le> 0
                then Inr (g, t1 @ [Log ''ERROR'' ''Failed to receive data from client'',
                                   Close client_socket])
                else
                  (let t2 = t1 @ [Log ''DEBUG'' (''Received request:'' @ LF # ''%s'')]
                   in case parse_http_request (heap_ok env) (Some buffer)
                             (Some (stack_request env)) of
                        Inl e \<Rightarrow> Inl e
                      | Inr (rc, request) \<Rightarrow>
                          if rc \<noteq> 0
                          then Inr (g, t2 @ [Log ''ERROR'' ''Failed to parse HTTP request'',
                                             Close client_socket])
                          else (case request of
                                  None \<Rightarrow> Inl NullDereference
                                | Some r \<Rightarrow>
                                    Inr (g, t2 @ [route client_socket r,
                                                  Close client_socket])))))"

text \<open>The results of the four socket calls of \<^verbatim>\<open>create_server_socket\<close>.\<close>

record socket_env =
  socket_ret :: int
  setsockopt_ret :: int
  bind_ret :: int
  listen_ret :: int

definition create_server_socket :: "socket_env \<Rightarrow> int \<Rightarrow> event list \<Rightarrow> int \<times> event list" where
  "create_server_socket env port_no t =
     (let sockfd = socket_ret env
      in if sockfd < 0 then (- 1, t @ [Perror ''socket creation failed''])
         else if setsockopt_ret env < 0
           then (- 1, t @ [Perror ''setsockopt failed'', Close sockfd])
         else if bind_ret env < 0
           then (- 1, t @ [Perror ''bind failed'', Close sockfd])
         else if listen_ret env < 0
           then (- 1, t @ [Perror ''listen failed'', Close sockfd])
         else (sockfd, t @ [Log ''INFO'' ''Server listening on port %d'']))"

text \<open>
  \<^verbatim>\<open>cleanup_and_exit\<close>: the handler of \<^verbatim>\<open>SIGINT\<close> and \<^verbatim>\<open>SIGTERM\<close>, also called
  with 0 at the end of \<^verbatim>\<open>main\<close>. With a signal number other than 0 it ends in
  \<^verbatim>\<open>exit(EXIT_SUCCESS)\<close>.
\<close>

definition cleanup_and_exit :: "int \<Rightarrow> globals \<times> event list \<Rightarrow> globals \<times> event list" where
  "cleanup_and_exit signal st =
     (case st of (g, t) \<Rightarrow>
        (let g1 = g\<lparr>server_running := 0\<rparr>
         in if server_socket g1 \<ge> 0
            then (g1\<lparr>server_socket := - 1\<rparr>,
                  t @ [Close (server_socket g1), Print ''QuickServer stopped gracefully.''])
            else (g1, t @ [Print ''QuickServer stopped gracefully.''])))"

definition EXIT_SUCCESS :: int where "EXIT_SUCCESS = 0"
definition EXIT_FAILURE :: int where "EXIT_FAILURE = 1"
definition EINTR :: int where "EINTR = 4"
definition DEFAULT_PORT :: int where "DEFAULT_PORT = 8080"

text \<open>
  \<^verbatim>\<open>main\<close> as a machine. The program points are the start, the head of the accept
  loop, the call of \<^verbatim>\<open>handle_client_connection\<close> on an accepted socket, the code after the
  loop, and the end of the process (by exit status or by a fault).
\<close>

datatype pc = Start | LoopHead | Handling int | AfterLoop | Exited int | Faulted c_fault

record server =
  pc :: pc
  glob :: globals
  trace :: "event list"

text \<open>
  Each step consumes one input from the environment: the command line and the results of
  the socket calls at the start, the result of \<^verbatim>\<open>accept\<close> with \<^verbatim>\<open>errno\<close> at the head of
  the loop, what a connection delivers while it is handled, or a signal.
\<close>

datatype input =
    Launch "int option" socket_env
  | AcceptReturns int int
  | Connection conn_env
  | Signal int

text \<open>\<^verbatim>\<open>main\<close> up to the loop; \<open>argv1\<close> is \<^verbatim>\<open>atoi(argv[1])\<close> when there is an argument.\<close>

definition main_start :: "int option \<Rightarrow> socket_env \<Rightarrow> server \<Rightarrow> server" where
  "main_start argv1 env s =
     (let port_no = (case argv1 of None \<Rightarrow> DEFAULT_PORT | Some p \<Rightarrow> p)
      in if argv1 \<noteq> None \<and> (port_no \<le> 0 \<or> port_no > 65535)
         then s\<lparr>pc := Exited EXIT_FAILURE, trace := trace s @ [Print ''Invalid port number: %s'']\<rparr>
         else (case create_server_socket env port_no (trace s) of
                 (fd, t) \<Rightarrow>
                   if fd < 0
                   then s\<lparr>pc := Exited EXIT_FAILURE,
                          glob := (glob s)\<lparr>server_socket := fd\<rparr>,
                          trace := t @ [Print ''Failed to create server socket'']\<rparr>
                   else s\<lparr>pc := LoopHead,
                          glob := (glob s)\<lparr>server_socket := fd\<rparr>,
                          trace := t @ [Print ''QuickServer started successfully!'',
                                         Print ''Serving files from current directory'',
                                         Print ''Server listening on http://localhost:%d'',
                                         Print ''Press Ctrl+C to stop the server'']\<rparr>))"

definition signalled :: "int \<Rightarrow> server \<Rightarrow> server" where
  "signalled sig s =
     (case cleanup_and_exit sig (glob s, trace s) of
        (g, t) \<Rightarrow> s\<lparr>pc := Exited EXIT_SUCCESS, glob := g, trace := t\<rparr>)"

fun step :: "input \<Rightarrow> server \<Rightarrow> server" where
  "step inp s =
     (case pc s of
        Start \<Rightarrow> (case inp of Launch argv1 env \<Rightarrow> main_start argv1 env s | _ \<Rightarrow> s)
      | LoopHead \<Rightarrow>
          (case inp of
             Signal sig \<Rightarrow> if sig \<noteq> 0 then signalled sig s else s
           | AcceptReturns client_socket errno \<Rightarrow>
               if server_running (glob s) = 0 then s\<lparr>pc := AfterLoop\<rparr>
               else if client_socket < 0 then
                 (if errno = EINTR then s\<lparr>trace := trace s @ [Accept client_socket]\<rparr>
                  else s\<lparr>pc := AfterLoop,
                         trace := trace s @ [Accept client_socket, Perror ''accept failed'']\<rparr>)
               else s\<lparr>pc := Handling client_socket,
                      trace := trace s @ [Accept client_socket]\<rparr>
           | _ \<Rightarrow> s)
      | Handling client_socket \<Rightarrow>
          (case inp of
             Signal sig \<Rightarrow> if sig \<noteq> 0 then signalled sig s else s
           | Connection env \<Rightarrow>
               (case handle_client_connection env client_socket (glob s, trace s) of
                  Inl e \<Rightarrow> s\<lparr>pc := Faulted e\<rparr>
                | Inr (g, t) \<Rightarrow> s\<lparr>pc := LoopHead, glob := g, trace := t\<rparr>)
           | _ \<Rightarrow> s)
      | AfterLoop \<Rightarrow>
          (case inp of
             Signal sig \<Rightarrow> if sig \<noteq> 0 then signalled sig s else s
           | _ \<Rightarrow>
               (case cleanup_and_exit 0 (glob s, trace s) of
                  (g, t) \<Rightarrow> s\<lparr>pc := Exited EXIT_SUCCESS, glob := g, trace := t\<rparr>))
      | Exited status \<Rightarrow> s
      | Faulted e \<Rightarrow> s)"

declare step.simps [simp del]

definition initial_server :: server where
  "initial_server = \<lparr>pc = Start, glob = initial_globals, trace = []\<rparr>"

fun run :: "input list \<Rightarrow> server \<Rightarrow> server" where
  "run [] s = s"
| "run (inp # inps) s = run inps (step inp s)"

text \<open>
  The client sockets that are open after a trace: those \<^verbatim>\<open>accept\<close> has returned and
  \<^verbatim>\<open>close\<close> has not yet been called on.
\<close>

fun track :: "int list \<Rightarrow> event \<Rightarrow> int list" where
  "track open (Accept fd) = (if fd \<ge> 0 then open @ [fd] else open)"
| "track open (Close fd) = remove1 fd open"
| "track open _ = open"

definition open_clients :: "event list \<Rightarrow> int list" where
  "open_clients t = foldl track [] t"

text \<open>
  Two environments for running the machine: socket calls that all succeed and give
  descriptor 3, and a connection on which \<^verbatim>\<open>recv\<close> fails.
\<close>

definition sockets_ok :: socket_env where
  "sockets_ok = \<lparr>socket_ret = 3, setsockopt_ret = 0, bind_ret = 0, listen_ret = 0\<rparr>"

definition no_data :: conn_env where
  "no_data = \<lparr>pending = None, heap_ok = True, stack_request = zero_request\<rparr>"

text \<open>
  The invariant of the machine: after every prefix of the trace at most one client socket
  is open; none is open at the start, at the head of the loop and after the loop, and the
  socket being handled is the one that is open; the process has not faulted; and
  \<^verbatim>\<open>client_count\<close> and \<^verbatim>\<open>clients\<close> are as they were initialised.
\<close>

definition server_inv :: "server \<Rightarrow> bool" where
  "server_inv s \<longleftrightarrow>
     (\<forall>k. length (open_clients (take k (trace s))) \<le> 1) \<and>
     (case pc s of
        Start \<Rightarrow> open_clients (trace s) = []
      | LoopHead \<Rightarrow> open_clients (trace s) = []
      | Handling client_socket \<Rightarrow> open_clients (trace s) = [client_socket]
      | AfterLoop \<Rightarrow> open_clients (trace s) = []
      | Exited status \<Rightarrow> True
      | Faulted e \<Rightarrow> False) \<and>
     client_count (glob s) = 0 \<and>
     clients (glob s) = replicate MAX_CLIENTS zero_client"

section \<open>Notions of the specification\<close>

text \<open>
  The words of a line: its maximal runs of characters that are not white space. This is
  what the specification calls its whitespace-separated fields; it is defined here on its
  own, not through \<open>scan_s\<close>.
\<close>

function ws_fields :: "string \<Rightarrow> string list" where
  "ws_fields s =
     (let s1 = dropWhile isspace s
      in if s1 = [] then []
         else takeWhile (\<lambda>c. \<not> isspace c) s1 # ws_fields (dropWhile (\<lambda>c. \<not> isspace c) s1))"
  by pat_completeness auto
termination
proof -
  have "length (dropWhile (\<lambda>c. \<not> isspace c) (dropWhile isspace s)) < length s"
    if "dropWhile isspace s \<noteq> []" for s
  proof -
    from that have "\<not> isspace (hd (dropWhile isspace s))" by (rule hd_dropWhile)
    with that have "length (dropWhile (\<lambda>c. \<not> isspace c) (dropWhile isspace s))
        < length (dropWhile isspace s)"
      by (cases "dropWhile isspace s") (auto intro: le_imp_less_Suc length_dropWhile_le)
    moreover have "length (dropWhile isspace s) \<le> length s" by (rule length_dropWhile_le)
    ultimately show ?thesis by simp
  qed
  then show ?thesis
    by (relation "measure length") auto
qed

declare ws_fields.simps [simp del]

text \<open>
  The fields that result from cutting the words into pieces no longer than the given
  widths, in order: a word longer than the width of its field continues in the next field.
\<close>

fun split_fields :: "nat list \<Rightarrow> string list \<Rightarrow> string list" where
  "split_fields [] ws = []"
| "split_fields (w # widths) [] = []"
| "split_fields (w # widths) (x # xs) =
     take w x # split_fields widths (if w < length x then drop w x # xs else xs)"

text \<open>
  The first line of a request: the characters before the first CR or LF, line ends at the
  very start skipped.
\<close>

definition first_line :: "string \<Rightarrow> string" where
  "first_line s =
     takeWhile (\<lambda>c. c \<noteq> CR \<and> c \<noteq> LF) (dropWhile (\<lambda>c. c = CR \<or> c = LF) s)"

section \<open>Properties of the user service\<close>

lemma any_of_iff: "any_of P xs \<longleftrightarrow> (\<exists>x \<in> set xs. P x)"
  by (induction xs) auto

lemma find_if_le: "find_if P xs \<le> length xs"
  by (induction xs) auto

lemma find_if_end: "find_if P xs = length xs \<longleftrightarrow> (\<forall>x \<in> set xs. \<not> P x)"
proof (induction xs)
  case Nil
  show ?case by simp
next
  case (Cons x xs)
  have "find_if P xs \<le> length xs" by (rule find_if_le)
  with Cons show ?case by auto
qed

lemma find_if_first:
  "find_if P xs < length xs \<Longrightarrow>
     P (xs ! find_if P xs) \<and> (\<forall>j < find_if P xs. \<not> P (xs ! j))"
proof (induction xs)
  case Nil
  then show ?case by simp
next
  case (Cons x xs)
  show ?case
  proof (cases "P x")
    case True
    then show ?thesis by simp
  next
    case False
    with Cons.prems have lt: "find_if P xs < length xs" by simp
    from Cons.IH [OF lt] False show ?thesis
      by (auto simp: less_Suc_eq_0_disj)
  qed
qed

text \<open>
  C3. \<^verbatim>\<open>add_user_async\<close> returns true exactly when no stored user has the id of the
  given user; then the user is appended to \<^verbatim>\<open>users_\<close>. When a stored user has that id
  it returns false and the service is unchanged.
\<close>

theorem add_user_async_spec:
  "(fst (add_user_async svc user) \<longleftrightarrow>
      (\<forall>existing \<in> set (users_' svc). get (id_' existing) \<noteq> get (id_' user))) \<and>
   (fst (add_user_async svc user) \<longrightarrow>
      users_' (snd (add_user_async svc user)) = users_' svc @ [user]) \<and>
   (\<not> fst (add_user_async svc user) \<longrightarrow> snd (add_user_async svc user) = svc)"
  by (simp add: add_user_async_def Let_def any_of_iff)

theorem add_user_async_spec_witness:
  "fst (add_user_async \<lparr>users_' = [User_new (StrongType 1001) (StrongType ''a'') ''a@x'' 0]\<rparr>
          (User_new (StrongType 1002) (StrongType ''b'') ''b@x'' 5)) \<and>
   users_' (snd (add_user_async
          \<lparr>users_' = [User_new (StrongType 1001) (StrongType ''a'') ''a@x'' 0]\<rparr>
          (User_new (StrongType 1002) (StrongType ''b'') ''b@x'' 5))) =
     [User_new (StrongType 1001) (StrongType ''a'') ''a@x'' 0,
      User_new (StrongType 1002) (StrongType ''b'') ''b@x'' 5] \<and>
   snd (add_user_async \<lparr>users_' = [User_new (StrongType 1001) (StrongType ''a'') ''a@x'' 0]\<rparr>
          (User_new (StrongType 1001) (StrongType ''c'') ''c@x'' 7)) =
     \<lparr>users_' = [User_new (StrongType 1001) (StrongType ''a'') ''a@x'' 0]\<rparr>"
  using
    add_user_async_spec [of "\<lparr>users_' = [User_new (StrongType 1001) (StrongType ''a'') ''a@x'' 0]\<rparr>"
      "User_new (StrongType 1002) (StrongType ''b'') ''b@x'' 5"]
    add_user_async_spec [of "\<lparr>users_' = [User_new (StrongType 1001) (StrongType ''a'') ''a@x'' 0]\<rparr>"
      "User_new (StrongType 1001) (StrongType ''c'') ''c@x'' 7"]
  by (simp add: User_new_def)

lemma find_if_split:
  assumes "find_if P xs < length xs"
  shows "\<exists>pre u post. xs = pre @ u # post \<and> P u \<and> (\<forall>v \<in> set pre. \<not> P v) \<and>
           xs ! find_if P xs = u"
proof -
  let ?k = "find_if P xs"
  from find_if_first [OF assms] have hit: "P (xs ! ?k)" and miss: "\<forall>j < ?k. \<not> P (xs ! j)"
    by simp_all
  have split: "xs = take ?k xs @ xs ! ?k # drop (Suc ?k) xs"
    using assms by (simp add: id_take_nth_drop)
  have "\<forall>v \<in> set (take ?k xs). \<not> P v"
  proof
    fix v assume "v \<in> set (take ?k xs)"
    then obtain j where "j < length (take ?k xs)" and "take ?k xs ! j = v"
      by (auto simp: in_set_conv_nth)
    with miss show "\<not> P v" by auto
  qed
  with split hit show ?thesis by blast
qed

text \<open>
  C4. \<^verbatim>\<open>find_user_async\<close> returns the first stored user, in vector order, whose id is
  the requested one, when there is such a user, and \<^verbatim>\<open>nullopt\<close> when there is none;
  the service is the same after the call.
\<close>

theorem find_user_async_spec:
  "((\<exists>u \<in> set (users_' svc). get (id_' u) = get uid) \<longrightarrow>
      (\<exists>pre u post. users_' svc = pre @ u # post \<and> get (id_' u) = get uid \<and>
         (\<forall>v \<in> set pre. get (id_' v) \<noteq> get uid) \<and>
         fst (find_user_async svc uid) = Some u)) \<and>
   ((\<forall>u \<in> set (users_' svc). get (id_' u) \<noteq> get uid) \<longrightarrow>
      fst (find_user_async svc uid) = None) \<and>
   snd (find_user_async svc uid) = svc"
proof (intro conjI impI)
  let ?P = "\<lambda>user. get (id_' user) = get uid"
  assume "\<exists>u \<in> set (users_' svc). get (id_' u) = get uid"
  then have "find_if ?P (users_' svc) \<noteq> length (users_' svc)"
    by (simp add: find_if_end)
  with find_if_le [of ?P "users_' svc"]
  have lt: "find_if ?P (users_' svc) < length (users_' svc)" by simp
  from find_if_split [OF lt] lt
  show "\<exists>pre u post. users_' svc = pre @ u # post \<and> get (id_' u) = get uid \<and>
         (\<forall>v \<in> set pre. get (id_' v) \<noteq> get uid) \<and>
         fst (find_user_async svc uid) = Some u"
    by (simp add: find_user_async_def Let_def)
next
  assume "\<forall>u \<in> set (users_' svc). get (id_' u) \<noteq> get uid"
  then have "find_if (\<lambda>user. get (id_' user) = get uid) (users_' svc) = length (users_' svc)"
    by (simp add: find_if_end)
  then show "fst (find_user_async svc uid) = None"
    by (simp add: find_user_async_def Let_def)
next
  show "snd (find_user_async svc uid) = svc"
    by (simp add: find_user_async_def Let_def)
qed

theorem find_user_async_spec_witness:
  "fst (find_user_async
     \<lparr>users_' = [User_new (StrongType 7) (StrongType ''a'') ''a@x'' 0,
                 User_new (StrongType 9) (StrongType ''b'') ''b@x'' 1,
                 User_new (StrongType 9) (StrongType ''c'') ''c@x'' 2]\<rparr> (StrongType 9)) =
     Some (User_new (StrongType 9) (StrongType ''b'') ''b@x'' 1) \<and>
   fst (find_user_async
     \<lparr>users_' = [User_new (StrongType 7) (StrongType ''a'') ''a@x'' 0]\<rparr> (StrongType 9)) = None"
proof -
  let ?a = "User_new (StrongType 7) (StrongType ''a'') ''a@x'' 0"
  let ?b = "User_new (StrongType 9) (StrongType ''b'') ''b@x'' 1"
  let ?c = "User_new (StrongType 9) (StrongType ''c'') ''c@x'' 2"
  let ?svc = "\<lparr>users_' = [?a, ?b, ?c]\<rparr>"
  have ex: "\<exists>u \<in> set (users_' ?svc). get (id_' u) = get (StrongType 9 :: UserId)"
    by (simp add: User_new_def)
  from find_user_async_spec [of ?svc "StrongType 9"] ex
  obtain pre u post where
    sp: "users_' ?svc = pre @ u # post" and hit: "get (id_' u) = get (StrongType 9 :: UserId)" and
    miss: "\<forall>v \<in> set pre. get (id_' v) \<noteq> get (StrongType 9 :: UserId)" and
    res: "fst (find_user_async ?svc (StrongType 9)) = Some u"
    by blast
  from sp have sp': "[?a, ?b, ?c] = pre @ u # post" by simp
  have "u = ?b"
  proof (cases pre)
    case Nil
    with sp' have "u = ?a" by simp
    with hit show ?thesis by (simp add: User_new_def)
  next
    case (Cons p ps)
    note c1 = Cons
    with sp' have p: "p = ?a" and r1: "[?b, ?c] = ps @ u # post" by simp_all
    show ?thesis
    proof (cases ps)
      case Nil
      with r1 show ?thesis by simp
    next
      case (Cons q qs)
      with r1 have "q = ?b" by simp
      with Cons c1 miss show ?thesis by (simp add: User_new_def)
    qed
  qed
  with res have one: "fst (find_user_async ?svc (StrongType 9)) = Some ?b" by simp
  have two: "fst (find_user_async \<lparr>users_' = [?a]\<rparr> (StrongType 9)) = None"
    using find_user_async_spec [of "\<lparr>users_' = [?a]\<rparr>" "StrongType 9"]
    by (simp add: User_new_def)
  from one two show ?thesis by simp
qed

section \<open>Properties of SmartArray\<close>

lemma resize_loop_length:
  "resize_loop i n old_data new_data = Inr r \<Longrightarrow> length r = length new_data"
proof (induction i n old_data new_data rule: resize_loop.induct)
  case (1 i n old_data new_data)
  show ?case
  proof (cases "i < n")
    case True
    with "1.prems" have ok: "i < length old_data \<and> i < length new_data"
      by (simp add: resize_loop.simps [of i n old_data new_data] split: if_splits)
    with True "1.prems"
    have "resize_loop (i + 1) n old_data (new_data[i := old_data ! i]) = Inr r"
      by (simp add: resize_loop.simps [of i n old_data new_data])
    from "1.IH" [OF True ok this] show ?thesis by simp
  next
    case False
    with "1.prems" show ?thesis
      by (simp add: resize_loop.simps [of i n old_data new_data])
  qed
qed











text \<open>The class invariant holds of a new array, and \<^verbatim>\<open>push_back\<close> keeps it.\<close>

lemma resize_loop_room:
  "resize_loop i n old_data new_data = Inr r \<Longrightarrow> i \<le> length new_data \<Longrightarrow>
     n \<le> max i (length new_data)"
proof (induction i n old_data new_data rule: resize_loop.induct)
  case (1 i n old_data new_data)
  show ?case
  proof (cases "i < n")
    case True
    with "1.prems" have ok: "i < length old_data \<and> i < length new_data"
      by (simp add: resize_loop.simps [of i n old_data new_data] split: if_splits)
    with True "1.prems"
    have "resize_loop (i + 1) n old_data (new_data[i := old_data ! i]) = Inr r"
      by (simp add: resize_loop.simps [of i n old_data new_data])
    moreover from ok have "i + 1 \<le> length (new_data[i := old_data ! i])" by simp
    ultimately have "n \<le> max (i + 1) (length (new_data[i := old_data ! i]))"
      by (rule "1.IH" [OF True ok])
    with ok show ?thesis by simp
  next
    case False
    then show ?thesis by simp
  qed
qed

lemma class_inv_new: "class_inv (SmartArray_new dflt c)"
  by (simp add: class_inv_def SmartArray_new_def make_unique_def)

lemma class_inv_push_back:
  assumes "class_inv s" and "push_back dflt s v = Inr s'"
  shows "class_inv s'"
proof (cases "size_' s \<ge> capacity_' s")
  case False
  have "Suc (size_' s) mod SIZE_WRAP \<le> Suc (size_' s)" by (rule mod_less_eq_dividend)
  with False have "Suc (size_' s) mod SIZE_WRAP \<le> capacity_' s" by linarith
  with False assms show ?thesis
    by (auto simp: push_back_def class_inv_def split: if_splits)
next
  case True
  let ?c = "(capacity_' s * 2) mod SIZE_WRAP"
  from True assms(2) obtain s1 where r: "resize dflt s ?c = Inr s1"
    by (cases "resize dflt s ?c") (simp_all add: push_back_def)
  then obtain nd where
    l: "resize_loop 0 (size_' s) (data_' s) (make_unique dflt ?c) = Inr nd" and
    s1: "s1 = s\<lparr>data_' := nd, capacity_' := ?c\<rparr>"
    by (auto simp: resize_def split: sum.splits)
  from resize_loop_length [OF l] have len: "length nd = ?c" by (simp add: make_unique_def)
  from True r assms(2) s1 len have lt: "size_' s < ?c"
    and s': "s' = s1\<lparr>data_' := (data_' s1)[size_' s1 := v], size_' := (size_' s1 + 1) mod SIZE_WRAP\<rparr>"
    by (auto simp: push_back_def split: if_splits)
  have "Suc (size_' s) mod SIZE_WRAP \<le> Suc (size_' s)" by (rule mod_less_eq_dividend)
  with lt have "Suc (size_' s) mod SIZE_WRAP \<le> (capacity_' s * 2) mod SIZE_WRAP" by linarith
  with s' s1 len show ?thesis by (simp add: class_inv_def)
qed

text \<open>
  C10. Both overloads of \<^verbatim>\<open>operator[]\<close> throw \<^verbatim>\<open>std::out_of_range\<close> exactly when
  the index is at least the size. For a smaller index, on an array that satisfies the class
  invariant, they return the element at that index and the array is as before.
\<close>

theorem subscript_spec:
  "(subscript s index = Inl OutOfRange \<longleftrightarrow> index \<ge> size_' s) \<and>
   (subscript_const s index = Inl OutOfRange \<longleftrightarrow> index \<ge> size_' s) \<and>
   (class_inv s \<and> index < size_' s \<longrightarrow>
      subscript s index = Inr (data_' s ! index, s) \<and>
      subscript_const s index = Inr (data_' s ! index, s))"
  by (simp add: subscript_def subscript_const_def class_inv_def)

theorem subscript_spec_witness:
  "subscript \<lparr>data_' = [10, 20, 0 :: int], size_' = 2, capacity_' = 3\<rparr> 1 =
     Inr (20, \<lparr>data_' = [10, 20, 0], size_' = 2, capacity_' = 3\<rparr>) \<and>
   subscript_const \<lparr>data_' = [10, 20, 0 :: int], size_' = 2, capacity_' = 3\<rparr> 2 = Inl OutOfRange"
  using subscript_spec [of "\<lparr>data_' = [10, 20, 0 :: int], size_' = 2, capacity_' = 3\<rparr>" 1]
    subscript_spec [of "\<lparr>data_' = [10, 20, 0 :: int], size_' = 2, capacity_' = 3\<rparr>" 2]
  by (simp add: class_inv_def)

section \<open>Properties of the request parser\<close>

lemma strcat_fits:
  "length dest + length src < capacity \<Longrightarrow> strcat capacity dest src = Inr (dest @ src)"
  by (simp add: strcat_def)

lemma parse_lines_bounded:
  "length (headers request) < MAX_BUFFER_SIZE \<Longrightarrow> length (body request) < MAX_BUFFER_SIZE \<Longrightarrow>
   \<exists>r'. parse_lines saveptr in_headers request = Inr r' \<and>
        length (headers r') < MAX_BUFFER_SIZE \<and> length (body r') < MAX_BUFFER_SIZE \<and>
        method r' = method request \<and> path r' = path request \<and> version r' = version request"
proof (induction saveptr in_headers request rule: parse_lines.induct)
  case (1 saveptr in_headers request)
  note hb = "1.prems"
  show ?case
  proof (cases "strtok_r saveptr [CR, LF]")
    case None
    with hb show ?thesis by (simp add: parse_lines.simps [of saveptr in_headers request])
  next
    case (Some tok)
    obtain line saveptr' where tok: "tok = (line, saveptr')" by (cases tok)
    note unfold = parse_lines.simps [of saveptr in_headers request]
    show ?thesis
    proof (cases "length line = 0")
      case True
      from "1.IH"(1) [OF Some tok [symmetric] True hb] Some tok True
      show ?thesis by (subst unfold) simp
    next
      case nonempty: False
      show ?thesis
      proof (cases "in_headers \<noteq> 0")
        case True
        show ?thesis
        proof (cases "length (headers request) + length line + 2 < MAX_BUFFER_SIZE")
          case fits: True
          let ?h1 = "headers request @ line"
          let ?h2 = "?h1 @ [LF]"
          from fits have c1: "strcat MAX_BUFFER_SIZE (headers request) line = Inr ?h1"
            by (simp add: strcat_fits)
          from fits have c2: "strcat MAX_BUFFER_SIZE ?h1 [LF] = Inr ?h2"
            by (simp add: strcat_fits)
          from fits hb have b: "length (headers (request\<lparr>headers := ?h2\<rparr>)) < MAX_BUFFER_SIZE"
            "length (body (request\<lparr>headers := ?h2\<rparr>)) < MAX_BUFFER_SIZE"
            by simp_all
          from "1.IH"(2) [OF Some tok [symmetric] nonempty True fits c1 c2 b]
            Some tok nonempty True fits c1 c2
          show ?thesis by (subst unfold) simp
        next
          case skip: False
          from "1.IH"(3) [OF Some tok [symmetric] nonempty True skip hb]
            Some tok nonempty True skip
          show ?thesis by (subst unfold) simp
        qed
      next
        case False
        show ?thesis
        proof (cases "length (body request) + length line + 1 < MAX_BUFFER_SIZE")
          case fits: True
          let ?b1 = "body request @ line"
          from fits have c1: "strcat MAX_BUFFER_SIZE (body request) line = Inr ?b1"
            by (simp add: strcat_fits)
          from fits hb have b: "length (headers (request\<lparr>body := ?b1\<rparr>)) < MAX_BUFFER_SIZE"
            "length (body (request\<lparr>body := ?b1\<rparr>)) < MAX_BUFFER_SIZE"
            by simp_all
          from "1.IH"(4) [OF Some tok [symmetric] nonempty False fits c1 b]
            Some tok nonempty False fits c1
          show ?thesis by (subst unfold) simp
        next
          case skip: False
          from "1.IH"(5) [OF Some tok [symmetric] nonempty False skip hb]
            Some tok nonempty False skip
          show ?thesis by (subst unfold) simp
        qed
      qed
    qed
  qed
qed


lemma scan_s_fields:
  "scan_s w s =
     (case ws_fields s of
        [] \<Rightarrow> None
      | x # xs \<Rightarrow> Some (take w x, drop (min w (length x)) (dropWhile isspace s)))"
  by (subst ws_fields.simps) (simp add: scan_s_def Let_def min_def)

lemma ws_fields_rest:
  assumes "ws_fields s = x # xs"
  shows "ws_fields (drop (min w (length x)) (dropWhile isspace s)) =
           (if w < length x then drop w x # xs else xs)"
proof -
  define s1 where "s1 = dropWhile isspace s"
  define after where "after = dropWhile (\<lambda>c. \<not> isspace c) s1"
  have unfold: "ws_fields s =
      (if s1 = [] then [] else takeWhile (\<lambda>c. \<not> isspace c) s1 # ws_fields after)"
    by (subst ws_fields.simps) (simp add: Let_def s1_def after_def)
  from assms unfold have ne: "s1 \<noteq> []" by (cases "s1 = []") simp_all
  with assms unfold have x: "x = takeWhile (\<lambda>c. \<not> isspace c) s1" and xs: "xs = ws_fields after"
    by simp_all
  have s1: "s1 = x @ after" by (simp add: x after_def)
  have after: "after = [] \<or> isspace (hd after)"
  proof (cases "after = []")
    case False
    then show ?thesis
      unfolding after_def using hd_dropWhile [of "\<lambda>c. \<not> isspace c" s1] by blast
  qed simp
  show ?thesis
  proof (cases "w < length x")
    case False
    then have "drop (min w (length x)) s1 = after"
      by (simp add: s1 min_def)
    with False xs show ?thesis by (simp add: s1_def)
  next
    case True
    define u where "u = drop w x"
    from True have une: "u \<noteq> []" by (simp add: u_def)
    have unsp: "\<not> isspace c" if "c \<in> set u" for c
    proof -
      from that have "c \<in> set x" unfolding u_def by (rule in_set_dropD)
      then show ?thesis unfolding x by (auto dest: set_takeWhileD)
    qed
    from True have rest: "drop (min w (length x)) s1 = u @ after"
      by (simp add: s1 min_def u_def)
    obtain c cs where u: "u = c # cs" using une by (cases u) auto
    have c: "\<not> isspace c" using unsp [of c] by (simp add: u)
    have d: "dropWhile isspace (u @ after) = u @ after"
      using c by (simp add: u)
    have t: "takeWhile (\<lambda>c. \<not> isspace c) (u @ after) = u"
    proof -
      have "takeWhile (\<lambda>c. \<not> isspace c) (u @ after) = u @ takeWhile (\<lambda>c. \<not> isspace c) after"
        by (rule takeWhile_append2) (rule unsp)
      also have "takeWhile (\<lambda>c. \<not> isspace c) after = []"
        using after by (cases after) auto
      finally show ?thesis by simp
    qed
    have dd: "dropWhile (\<lambda>c. \<not> isspace c) (u @ after) = after"
    proof -
      have "dropWhile (\<lambda>c. \<not> isspace c) (u @ after) = dropWhile (\<lambda>c. \<not> isspace c) after"
        by (rule dropWhile_append2) (rule unsp)
      also have "\<dots> = after" using after by (cases after) auto
      finally show ?thesis .
    qed
    have "ws_fields (u @ after) = u # ws_fields after"
      by (subst ws_fields.simps) (simp add: Let_def d t dd une del: dropWhile_append2 takeWhile_append2 dropWhile_append1 takeWhile_append1)
    with rest True xs show ?thesis by (simp add: s1_def u_def)
  qed
qed

lemma scan_s_split:
  "scan_s w s = Some (f, rest) \<Longrightarrow>
     split_fields (w # widths) (ws_fields s) = f # split_fields widths (ws_fields rest)"
proof (cases "ws_fields s")
  case Nil
  moreover assume "scan_s w s = Some (f, rest)"
  ultimately show ?thesis by (simp add: scan_s_fields)
next
  case (Cons x xs)
  moreover assume "scan_s w s = Some (f, rest)"
  ultimately have f: "f = take w x"
    and rest: "rest = drop (min w (length x)) (dropWhile isspace s)"
    by (simp_all add: scan_s_fields)
  from ws_fields_rest [OF Cons, of w] rest
  have "ws_fields rest = (if w < length x then drop w x # xs else xs)" by simp
  with Cons f show ?thesis by simp
qed

lemma scan_s_none:
  "scan_s w s = None \<Longrightarrow> split_fields (w # widths) (ws_fields s) = []"
  by (cases "ws_fields s") (auto simp: scan_s_fields)

lemma scan_s_width: "scan_s w s = Some (f, rest) \<Longrightarrow> length f \<le> w"
  by (auto simp: scan_s_def Let_def split: if_splits)

lemma sscanf_fields:
  "sscanf_request_line line req =
     (case split_fields [15, 255, 15] (ws_fields line) of
        [m, p, v] \<Rightarrow> (3, req\<lparr>method := m, path := p, version := v\<rparr>)
      | [m, p] \<Rightarrow> (2, req\<lparr>method := m, path := p\<rparr>)
      | [m] \<Rightarrow> (1, req\<lparr>method := m\<rparr>)
      | _ \<Rightarrow> (EOF, req))"
proof (cases "scan_s 15 line")
  case None
  then show ?thesis by (simp add: sscanf_request_line_def scan_s_none)
next
  case (Some a)
  obtain m r1 where a: "a = (m, r1)" by (cases a)
  note s1 = scan_s_split [OF Some [unfolded a], of "[255, 15]"]
  show ?thesis
  proof (cases "scan_s 255 r1")
    case None
    with Some a s1 show ?thesis
      by (simp add: sscanf_request_line_def scan_s_none)
  next
    case (Some b)
    obtain p r2 where b: "b = (p, r2)" by (cases b)
    note s2 = scan_s_split [OF Some [unfolded b], of "[15]"]
    show ?thesis
    proof (cases "scan_s 15 r2")
      case None
      with \<open>scan_s 15 line = Some a\<close> a Some b s1 s2 show ?thesis
        by (simp add: sscanf_request_line_def scan_s_none)
    next
      case (Some c)
      obtain v r3 where c: "c = (v, r3)" by (cases c)
      note s3 = scan_s_split [OF Some [unfolded c], of "[]"]
      from \<open>scan_s 15 line = Some a\<close> a \<open>scan_s 255 r1 = Some b\<close> b Some c s1 s2 s3
      show ?thesis by (simp add: sscanf_request_line_def)
    qed
  qed
qed

lemma split_fields_length: "length (split_fields widths ws) \<le> length widths"
  by (induction widths ws rule: split_fields.induct) simp_all

lemma split_fields_widths:
  "i < length (split_fields widths ws) \<Longrightarrow> length (split_fields widths ws ! i) \<le> widths ! i"
proof (induction widths ws arbitrary: i rule: split_fields.induct)
  case (3 w widths x xs)
  show ?case
  proof (cases i)
    case 0
    then show ?thesis by simp
  next
    case (Suc j)
    with "3.prems" have "j < length (split_fields widths (if w < length x then drop w x # xs else xs))"
      by simp
    from "3.IH" [OF this] Suc show ?thesis by simp
  qed
qed simp_all

lemma strtok_r_none:
  "strtok_r s [CR, LF] = None \<longleftrightarrow> (\<forall>c \<in> set s. c = CR \<or> c = LF)"
  by (auto simp: strtok_r_def Let_def)

lemma strtok_r_first_line:
  "strtok_r s [CR, LF] = Some (line, saveptr) \<Longrightarrow> line = first_line s"
proof -
  have p: "(\<lambda>c. c \<in> set [CR, LF]) = (\<lambda>c. c = CR \<or> c = LF)"
    and q: "(\<lambda>c. c \<notin> set [CR, LF]) = (\<lambda>c. c \<noteq> CR \<and> c \<noteq> LF)"
    by auto
  assume "strtok_r s [CR, LF] = Some (line, saveptr)"
  then show ?thesis
    unfolding strtok_r_def first_line_def Let_def p q by (simp split: if_splits)
qed

lemma sscanf_three:
  "fst (sscanf_request_line line req) = 3 \<longleftrightarrow>
     length (split_fields [15, 255, 15] (ws_fields line)) = 3"
proof -
  have "length (split_fields [15, 255, 15] (ws_fields line)) \<le> 3"
    using split_fields_length [of "[15, 255, 15]" "ws_fields line"] by simp
  then show ?thesis
    by (simp add: sscanf_fields EOF_def split: list.splits)
qed

lemma sscanf_stored:
  "sscanf_request_line line req = (3, r) \<Longrightarrow>
     [method r, path r, version r] = split_fields [15, 255, 15] (ws_fields line) \<and>
     headers r = headers req \<and> body r = body req"
  by (auto simp: sscanf_fields EOF_def split: list.splits)

lemma parse_http_request_null:
  "raw_request = None \<or> request = None \<Longrightarrow>
     parse_http_request ok raw_request request = Inr (- 1, request)"
  by (auto simp: parse_http_request_def split: option.splits)

lemma parse_http_request_no_heap:
  "parse_http_request False (Some raw) (Some req) = Inr (- 1, Some req)"
  by (simp add: parse_http_request_def strdup_def)

lemma parse_http_request_no_line:
  "\<forall>c \<in> set (cstr raw). c = CR \<or> c = LF \<Longrightarrow>
     parse_http_request True (Some raw) (Some req) = Inr (- 1, Some req)"
proof -
  assume "\<forall>c \<in> set (cstr raw). c = CR \<or> c = LF"
  then have "strtok_r (cstr raw) [CR, LF] = None" by (simp only: strtok_r_none)
  then show ?thesis by (simp add: parse_http_request_def strdup_def)
qed

lemma parse_http_request_few_fields:
  assumes "\<not> (\<forall>c \<in> set (cstr raw). c = CR \<or> c = LF)"
    and "length (split_fields [15, 255, 15] (ws_fields (first_line (cstr raw)))) \<noteq> 3"
  shows "\<exists>r. parse_http_request True (Some raw) (Some req) = Inr (- 1, Some r)"
proof -
  from assms(1) obtain line saveptr where
    tok: "strtok_r (cstr raw) [CR, LF] = Some (line, saveptr)"
    by (cases "strtok_r (cstr raw) [CR, LF]") (auto simp: strtok_r_none [symmetric])
  then have line: "line = first_line (cstr raw)" by (rule strtok_r_first_line)
  obtain n r1 where sc: "sscanf_request_line line req = (n, r1)"
    by (cases "sscanf_request_line line req")
  with assms(2) line have "n \<noteq> 3" using sscanf_three [of line req] by simp
  with tok sc show ?thesis by (simp add: parse_http_request_def strdup_def)
qed

lemma parse_http_request_success:
  assumes "ok" and "\<not> (\<forall>c \<in> set (cstr raw). c = CR \<or> c = LF)"
    and "length (split_fields [15, 255, 15] (ws_fields (first_line (cstr raw)))) = 3"
  shows "\<exists>q. parse_http_request ok (Some raw) (Some req) = Inr (0, Some q) \<and>
           [method q, path q, version q] =
             split_fields [15, 255, 15] (ws_fields (first_line (cstr raw))) \<and>
           length (headers q) < MAX_BUFFER_SIZE \<and> length (body q) < MAX_BUFFER_SIZE"
proof -
  from assms(2) obtain line saveptr where
    tok: "strtok_r (cstr raw) [CR, LF] = Some (line, saveptr)"
    by (cases "strtok_r (cstr raw) [CR, LF]") (auto simp: strtok_r_none [symmetric])
  then have line: "line = first_line (cstr raw)" by (rule strtok_r_first_line)
  obtain n r1 where sc: "sscanf_request_line line req = (n, r1)"
    by (cases "sscanf_request_line line req")
  with assms(3) line have n: "n = 3" using sscanf_three [of line req] by simp
  from sc n sscanf_stored [of line req r1]
  have st: "[method r1, path r1, version r1] = split_fields [15, 255, 15] (ws_fields line)"
    by simp
  let ?r = "r1\<lparr>headers := [], body := []\<rparr>"
  have "length (headers ?r) < MAX_BUFFER_SIZE" "length (body ?r) < MAX_BUFFER_SIZE"
    by (simp_all add: MAX_BUFFER_SIZE_def)
  from parse_lines_bounded [OF this, of saveptr 1]
  obtain q where q: "parse_lines saveptr 1 ?r = Inr q"
    and b: "length (headers q) < MAX_BUFFER_SIZE" "length (body q) < MAX_BUFFER_SIZE"
    and same: "method q = method r1" "path q = path r1" "version q = version r1"
    by auto
  from \<open>ok\<close> tok sc n q have "parse_http_request ok (Some raw) (Some req) = Inr (0, Some q)"
    by (simp add: parse_http_request_def strdup_def strcpy_def MAX_BUFFER_SIZE_def)
  with st same b line show ?thesis by simp
qed

lemma parse_http_request_outcome:
  "((\<exists>r. parse_http_request ok raw_request request = Inr (- 1, r)) \<and>
      (raw_request = None \<or> request = None \<or> \<not> ok \<or>
       (\<exists>raw. raw_request = Some raw \<and>
          ((\<forall>c \<in> set (cstr raw). c = CR \<or> c = LF) \<or>
           length (split_fields [15, 255, 15] (ws_fields (first_line (cstr raw)))) < 3)))) \<or>
   ((\<exists>raw q. raw_request = Some raw \<and>
        parse_http_request ok raw_request request = Inr (0, Some q) \<and>
        [method q, path q, version q] =
          split_fields [15, 255, 15] (ws_fields (first_line (cstr raw))) \<and>
        length (headers q) < MAX_BUFFER_SIZE \<and> length (body q) < MAX_BUFFER_SIZE) \<and>
      \<not> (raw_request = None \<or> request = None \<or> \<not> ok \<or>
       (\<exists>raw. raw_request = Some raw \<and>
          ((\<forall>c \<in> set (cstr raw). c = CR \<or> c = LF) \<or>
           length (split_fields [15, 255, 15] (ws_fields (first_line (cstr raw)))) < 3))))"
proof (cases "raw_request = None \<or> request = None")
  case True
  then show ?thesis using parse_http_request_null [OF True, of ok] by blast
next
  case False
  then obtain raw req where rr: "raw_request = Some raw" "request = Some req" by auto
  have le3: "length (split_fields [15, 255, 15] (ws_fields (first_line (cstr raw)))) \<le> 3"
    using split_fields_length [of "[15, 255, 15]" "ws_fields (first_line (cstr raw))"] by simp
  show ?thesis
  proof (cases ok)
    case False
    with rr show ?thesis using parse_http_request_no_heap [of raw req] by simp
  next
    case True
    show ?thesis
    proof (cases "\<forall>c \<in> set (cstr raw). c = CR \<or> c = LF")
      case noline: True
      from parse_http_request_no_line [OF noline, of req] True rr noline
      show ?thesis by simp
    next
      case line: False
      show ?thesis
      proof (cases "length (split_fields [15, 255, 15] (ws_fields (first_line (cstr raw)))) = 3")
        case few: False
        from parse_http_request_few_fields [OF line few, of req] obtain r where
          "parse_http_request True (Some raw) (Some req) = Inr (- 1, Some r)" by blast
        moreover from few le3
        have "length (split_fields [15, 255, 15] (ws_fields (first_line (cstr raw)))) < 3"
          by simp
        ultimately show ?thesis using True rr by simp
      next
        case three: True
        from parse_http_request_success [OF True line three, of req] obtain q where
          "parse_http_request ok (Some raw) (Some req) = Inr (0, Some q)"
          "[method q, path q, version q] =
             split_fields [15, 255, 15] (ws_fields (first_line (cstr raw)))"
          "length (headers q) < MAX_BUFFER_SIZE" "length (body q) < MAX_BUFFER_SIZE"
          by blast
        with True rr line three show ?thesis by simp
      qed
    qed
  qed
qed

lemma stored_field_widths:
  assumes "[m, p, v] = split_fields [15, 255, 15] ws"
  shows "length m \<le> 15 \<and> length p \<le> 255 \<and> length v \<le> 15"
proof -
  let ?f = "split_fields [15, 255, 15] ws"
  from assms have len: "length ?f = 3" by (metis length_Cons list.size(3) numeral_3_eq_3)
  have "length (?f ! 0) \<le> [15, 255, 15] ! 0" "length (?f ! 1) \<le> [15, 255, 15] ! 1"
    "length (?f ! 2) \<le> [15, 255, 15] ! 2"
    using len split_fields_widths [of 0 "[15, 255, 15]" ws]
      split_fields_widths [of 1 "[15, 255, 15]" ws] split_fields_widths [of 2 "[15, 255, 15]" ws]
    by simp_all
  then show ?thesis by (simp add: assms [symmetric])
qed

text \<open>
  C9. \<^verbatim>\<open>parse_http_request\<close> always returns, with \<open>-1\<close> or \<open>0\<close>. It returns \<open>-1\<close>
  exactly when \<^verbatim>\<open>raw_request\<close> is null, \<^verbatim>\<open>request\<close> is null, \<^verbatim>\<open>strdup\<close> fails,
  the request has no first line (it holds nothing but CR and LF), or cutting the words of the
  first line into fields of at most 15, 255 and 15 characters gives fewer than three fields.
  Otherwise it returns \<open>0\<close>, and method, path and version are these three fields, of at
  most 15, 255 and 15 characters.
\<close>

theorem parse_http_request_result:
  "\<exists>rc r. parse_http_request ok raw_request request = Inr (rc, r) \<and> (rc = - 1 \<or> rc = 0) \<and>
     (rc = - 1 \<longleftrightarrow>
        raw_request = None \<or> request = None \<or> \<not> ok \<or>
        (\<exists>raw. raw_request = Some raw \<and>
           ((\<forall>c \<in> set (cstr raw). c = CR \<or> c = LF) \<or>
            length (split_fields [15, 255, 15] (ws_fields (first_line (cstr raw)))) < 3))) \<and>
     (rc = 0 \<longrightarrow>
        (\<exists>raw q. raw_request = Some raw \<and> r = Some q \<and>
           [method q, path q, version q] =
             split_fields [15, 255, 15] (ws_fields (first_line (cstr raw))) \<and>
           length (method q) \<le> 15 \<and> length (path q) \<le> 255 \<and> length (version q) \<le> 15))"
proof -
  let ?fail = "raw_request = None \<or> request = None \<or> \<not> ok \<or>
        (\<exists>raw. raw_request = Some raw \<and>
           ((\<forall>c \<in> set (cstr raw). c = CR \<or> c = LF) \<or>
            length (split_fields [15, 255, 15] (ws_fields (first_line (cstr raw)))) < 3))"
  consider (failure) r where "parse_http_request ok raw_request request = Inr (- 1, r)" "?fail"
    | (success) raw q where "raw_request = Some raw"
        "parse_http_request ok raw_request request = Inr (0, Some q)"
        "[method q, path q, version q] =
           split_fields [15, 255, 15] (ws_fields (first_line (cstr raw)))"
        "\<not> ?fail"
    using parse_http_request_outcome [of ok raw_request request] by blast
  then show ?thesis
  proof cases
    case failure
    then show ?thesis by (intro exI [of _ "- 1"] exI [of _ r]) simp
  next
    case success
    from stored_field_widths [OF success(3)] success
    show ?thesis by (intro exI [of _ 0] exI [of _ "Some q"]) simp
  qed
qed

theorem parse_http_request_result_witness:
  "\<exists>q. parse_http_request True (Some ''GET /a HTTP/1.1'') (Some zero_request) = Inr (0, Some q) \<and>
       [method q, path q, version q] = [''GET'', ''/a'', ''HTTP/1.1'']"
proof -
  let ?raw = "''GET /a HTTP/1.1''"
  have line: "\<not> (\<forall>c \<in> set (cstr ?raw). c = CR \<or> c = LF)" by code_simp
  have fields: "split_fields [15, 255, 15] (ws_fields (first_line (cstr ?raw))) =
      [''GET'', ''/a'', ''HTTP/1.1'']" by code_simp
  from parse_http_request_result [of True "Some ?raw" "Some zero_request"]
  obtain rc r where
    res: "parse_http_request True (Some ?raw) (Some zero_request) = Inr (rc, r)" and
    rng: "rc = - 1 \<or> rc = 0" and
    fail: "rc = - 1 \<longleftrightarrow> (\<forall>c \<in> set (cstr ?raw). c = CR \<or> c = LF) \<or>
        length (split_fields [15, 255, 15] (ws_fields (first_line (cstr ?raw)))) < 3" and
    ok: "rc = 0 \<longrightarrow> (\<exists>q. r = Some q \<and> [method q, path q, version q] =
        split_fields [15, 255, 15] (ws_fields (first_line (cstr ?raw))))"
    by auto
  from fail line fields have "rc \<noteq> - 1" by simp
  with rng have "rc = 0" by simp
  with ok res fields show ?thesis by auto
qed

text \<open>
  The first line \<^verbatim>\<open>ABCDEFGHIJKLMNOPQ /x\<close> has two whitespace-separated fields, and the
  parser returns 0 on it: the first word fills the method and its last two characters
  become the path.
\<close>

theorem parse_http_request_two_words:
  "ws_fields (first_line (cstr ''ABCDEFGHIJKLMNOPQ /x'')) = [''ABCDEFGHIJKLMNOPQ'', ''/x''] \<and>
   parse_http_request True (Some ''ABCDEFGHIJKLMNOPQ /x'') (Some zero_request) =
     Inr (0, Some \<lparr>method = ''ABCDEFGHIJKLMNO'', path = ''PQ'', version = ''/x'',
                    headers = [], body = []\<rparr>)"
  by code_simp

section \<open>Properties of the fixed-size buffers\<close>

lemma recv_bounds:
  assumes "len \<le> length buffer"
  shows "\<exists>n b. recv incoming buffer len = Inr (n, b) \<and> - 1 \<le> n \<and> n \<le> int len \<and>
           length b = length buffer"
proof (cases incoming)
  case None
  then show ?thesis by (simp add: recv_def)
next
  case (Some bytes)
  let ?got = "take len bytes"
  have "length ?got \<le> len" by simp
  with assms have "length (?got @ drop (length ?got) buffer) = length buffer" by simp
  with Some assms show ?thesis by (simp add: recv_def Let_def)
qed

lemma receive_request_ok:
  "\<exists>n b. receive_request env = Inr (n, b) \<and> n \<le> int MAX_BUFFER_SIZE - 1 \<and>
         length b = MAX_BUFFER_SIZE"
proof -
  have "MAX_BUFFER_SIZE - 1 \<le> length (replicate MAX_BUFFER_SIZE NUL)" by simp
  from recv_bounds [OF this, of "pending env"]
  obtain n b where r: "recv (pending env) (replicate MAX_BUFFER_SIZE NUL) (MAX_BUFFER_SIZE - 1) = Inr (n, b)"
    and n: "n \<le> int (MAX_BUFFER_SIZE - 1)" and l: "length b = MAX_BUFFER_SIZE"
    by auto
  from n have n': "n \<le> int MAX_BUFFER_SIZE - 1" by (simp add: MAX_BUFFER_SIZE_def)
  show ?thesis
  proof (cases "n \<le> 0")
    case True
    with r n' l show ?thesis by (simp add: receive_request_def)
  next
    case False
    with n' l have "0 \<le> n \<and> nat n < length b" by (simp add: MAX_BUFFER_SIZE_def)
    then have "store b n NUL = Inr (b[nat n := NUL])" by (simp add: store_def)
    with False r n' l show ?thesis by (simp add: receive_request_def)
  qed
qed

text \<open>
  C2. \<^verbatim>\<open>recv\<close> is asked for \<open>MAX_BUFFER_SIZE - 1\<close> bytes and returns at most that many,
  so the NUL written at index \<^verbatim>\<open>bytes_received\<close> is inside the buffer of
  \<open>MAX_BUFFER_SIZE\<close> bytes. The loop of \<^verbatim>\<open>parse_http_request\<close> never writes past the
  end of \<^verbatim>\<open>headers\<close> or \<^verbatim>\<open>body\<close>, and keeps both strings shorter than
  \<open>MAX_BUFFER_SIZE\<close>, from any state in which they are; so does the whole function on every
  input.
\<close>

theorem fixed_size_buffers:
  "(\<exists>n buffer1.
      recv (pending env) (replicate MAX_BUFFER_SIZE NUL) (MAX_BUFFER_SIZE - 1) = Inr (n, buffer1) \<and>
      n \<le> int MAX_BUFFER_SIZE - 1 \<and> length buffer1 = MAX_BUFFER_SIZE \<and>
      (0 < n \<longrightarrow> nat n < length buffer1 \<and>
         store buffer1 n NUL = Inr (buffer1[nat n := NUL]) \<and>
         receive_request env = Inr (n, buffer1[nat n := NUL]))) \<and>
   (length (headers request) < MAX_BUFFER_SIZE \<and> length (body request) < MAX_BUFFER_SIZE \<longrightarrow>
      (\<exists>r'. parse_lines saveptr in_headers request = Inr r' \<and>
            length (headers r') < MAX_BUFFER_SIZE \<and> length (body r') < MAX_BUFFER_SIZE)) \<and>
   (\<exists>rc r. parse_http_request ok raw_request req = Inr (rc, r) \<and>
      (rc = 0 \<longrightarrow> (\<exists>q. r = Some q \<and> length (headers q) < MAX_BUFFER_SIZE \<and>
                         length (body q) < MAX_BUFFER_SIZE)))"
proof (intro conjI)
  have "MAX_BUFFER_SIZE - 1 \<le> length (replicate MAX_BUFFER_SIZE NUL)" by simp
  from recv_bounds [OF this, of "pending env"]
  obtain n b where r: "recv (pending env) (replicate MAX_BUFFER_SIZE NUL) (MAX_BUFFER_SIZE - 1) = Inr (n, b)"
    and n: "n \<le> int (MAX_BUFFER_SIZE - 1)" and l: "length b = MAX_BUFFER_SIZE"
    by auto
  from n have n': "n \<le> int MAX_BUFFER_SIZE - 1" by (simp add: MAX_BUFFER_SIZE_def)
  have "nat n < length b \<and> store b n NUL = Inr (b[nat n := NUL]) \<and>
      receive_request env = Inr (n, b[nat n := NUL])" if pos: "0 < n"
  proof -
    from pos n' l have in_bounds: "0 \<le> n \<and> nat n < length b" by (simp add: MAX_BUFFER_SIZE_def)
    then have st: "store b n NUL = Inr (b[nat n := NUL])" by (simp add: store_def)
    with pos r have "receive_request env = Inr (n, b[nat n := NUL])"
      by (simp add: receive_request_def)
    with in_bounds st show ?thesis by simp
  qed
  with r n' l
  show "\<exists>n buffer1.
      recv (pending env) (replicate MAX_BUFFER_SIZE NUL) (MAX_BUFFER_SIZE - 1) = Inr (n, buffer1) \<and>
      n \<le> int MAX_BUFFER_SIZE - 1 \<and> length buffer1 = MAX_BUFFER_SIZE \<and>
      (0 < n \<longrightarrow> nat n < length buffer1 \<and>
         store buffer1 n NUL = Inr (buffer1[nat n := NUL]) \<and>
         receive_request env = Inr (n, buffer1[nat n := NUL]))"
    by blast
next
  show "length (headers request) < MAX_BUFFER_SIZE \<and> length (body request) < MAX_BUFFER_SIZE \<longrightarrow>
      (\<exists>r'. parse_lines saveptr in_headers request = Inr r' \<and>
            length (headers r') < MAX_BUFFER_SIZE \<and> length (body r') < MAX_BUFFER_SIZE)"
    using parse_lines_bounded [of request saveptr in_headers] by blast
next
  show "\<exists>rc r. parse_http_request ok raw_request req = Inr (rc, r) \<and>
      (rc = 0 \<longrightarrow> (\<exists>q. r = Some q \<and> length (headers q) < MAX_BUFFER_SIZE \<and>
                         length (body q) < MAX_BUFFER_SIZE))"
    using parse_http_request_outcome [of ok raw_request req] by auto
qed

theorem fixed_size_buffers_witness:
  "receive_request \<lparr>pending = Some ''GET'', heap_ok = True, stack_request = zero_request\<rparr> =
     Inr (3, (''GET'' @ drop 3 (replicate MAX_BUFFER_SIZE NUL))[3 := NUL]) \<and>
   (\<exists>r'. parse_lines ''Host: a'' 1 zero_request = Inr r' \<and>
        length (headers r') < MAX_BUFFER_SIZE \<and> length (body r') < MAX_BUFFER_SIZE)"
proof -
  let ?env = "\<lparr>pending = Some ''GET'', heap_ok = True, stack_request = zero_request\<rparr>"
  note inst = fixed_size_buffers [of ?env zero_request "''Host: a''" 1 True None None]
  have rv: "recv (pending ?env) (replicate MAX_BUFFER_SIZE NUL) (MAX_BUFFER_SIZE - 1) =
      Inr (3, ''GET'' @ drop 3 (replicate MAX_BUFFER_SIZE NUL))"
    by (simp add: recv_def MAX_BUFFER_SIZE_def)
  from inst rv have "receive_request ?env =
      Inr (3, (''GET'' @ drop 3 (replicate MAX_BUFFER_SIZE NUL))[nat 3 := NUL])"
    by auto
  then have one: "receive_request ?env =
      Inr (3, (''GET'' @ drop 3 (replicate MAX_BUFFER_SIZE NUL))[3 := NUL])"
    by simp
  have "length (headers zero_request) < MAX_BUFFER_SIZE \<and>
      length (body zero_request) < MAX_BUFFER_SIZE"
    by (simp add: zero_request_def MAX_BUFFER_SIZE_def)
  with inst have two: "\<exists>r'. parse_lines ''Host: a'' 1 zero_request = Inr r' \<and>
        length (headers r') < MAX_BUFFER_SIZE \<and> length (body r') < MAX_BUFFER_SIZE"
    by blast
  from one two show ?thesis by blast
qed

section \<open>Properties of the response builder\<close>

lemma status_message_fits: "strcpy 64 (status_message_for code) = Inr (status_message_for code)"
  by (simp add: strcpy_def status_message_for_def)

lemma strcpy_fits: "length src < capacity \<Longrightarrow> strcpy capacity src = Inr src"
  by (simp add: strcpy_def)

lemma build_http_response_value:
  assumes "length b < MAX_BUFFER_SIZE"
  shows "build_http_response response code content_type (Some b) =
     Inr \<lparr>status_code = code, status_message = status_message_for code,
          response_headers =
            take (MAX_BUFFER_SIZE - 1)
              (response_format code (status_message_for code)
                 (case content_type of Some ct \<Rightarrow> ct | None \<Rightarrow> []) (length b)),
          response_body = b, content_length = length b\<rparr>"
  using assms
  by (cases response)
    (simp add: build_http_response_def Let_def status_message_fits strcpy_fits snprintf_def)

lemma build_http_response_null_body:
  "build_http_response response code content_type None = Inl NullDereference"
  by (simp add: build_http_response_def Let_def status_message_fits)

lemma build_http_response_long_body:
  "MAX_BUFFER_SIZE \<le> length b \<Longrightarrow>
     build_http_response response code content_type (Some b) = Inl BufferOverflow"
  by (simp add: build_http_response_def Let_def status_message_fits strcpy_def)

text \<open>
  C6. For a body shorter than \<open>MAX_BUFFER_SIZE\<close>, \<^verbatim>\<open>build_http_response\<close> stores a
  response that depends on its three arguments only, whatever the structure held before:
  the status code, the status message of the \<^verbatim>\<open>switch\<close>, the body and its length, and as
  headers the first \<open>MAX_BUFFER_SIZE - 1\<close> characters of the formatted template, which is
  the whole template when that is shorter than \<open>MAX_BUFFER_SIZE\<close>.
\<close>

theorem build_http_response_spec:
  "(length b < MAX_BUFFER_SIZE \<longrightarrow>
      build_http_response response code content_type (Some b) =
        Inr \<lparr>status_code = code, status_message = status_message_for code,
             response_headers =
               take (MAX_BUFFER_SIZE - 1)
                 (response_format code (status_message_for code)
                    (case content_type of Some ct \<Rightarrow> ct | None \<Rightarrow> []) (length b)),
             response_body = b, content_length = length b\<rparr>) \<and>
   (length (response_format code (status_message_for code)
       (case content_type of Some ct \<Rightarrow> ct | None \<Rightarrow> []) (length b)) < MAX_BUFFER_SIZE \<longrightarrow>
      take (MAX_BUFFER_SIZE - 1)
        (response_format code (status_message_for code)
           (case content_type of Some ct \<Rightarrow> ct | None \<Rightarrow> []) (length b)) =
      response_format code (status_message_for code)
        (case content_type of Some ct \<Rightarrow> ct | None \<Rightarrow> []) (length b)) \<and>
   status_message_for code =
     (if code = 200 then ''OK'' else if code = 404 then ''Not Found''
      else if code = 500 then ''Internal Server Error'' else ''Unknown'')"
  by (simp add: build_http_response_value status_message_for_def)

lemma dec_nat_2: "dec_nat 2 = ''2''"
  by code_simp

lemma dec_nat_0: "dec_nat 0 = ''0''"
  by code_simp

lemma dec_int_200: "dec_int 200 = ''200''"
  by code_simp

theorem build_http_response_spec_witness:
  "build_http_response zero_response 200 (Some ''Content-Type: text/html'') (Some ''hi'') =
     Inr \<lparr>status_code = 200, status_message = ''OK'',
          response_headers =
            ''HTTP/1.1 200 OK'' @ [CR, LF] @ ''Content-Type: text/html'' @ [CR, LF] @
            ''Content-Length: 2'' @ [CR, LF] @ ''Connection: close'' @ [CR, LF] @
            ''Server: QuickServer/1.0'' @ [CR, LF] @ [CR, LF],
          response_body = ''hi'', content_length = 2\<rparr>"
proof -
  let ?ct = "Some ''Content-Type: text/html''"
  note inst = build_http_response_spec [of "''hi''" zero_response 200 ?ct]
  have msg: "status_message_for 200 = ''OK''" by (simp add: status_message_for_def)
  have fmt: "response_format 200 ''OK'' ''Content-Type: text/html'' 2 =
      ''HTTP/1.1 200 OK'' @ [CR, LF] @ ''Content-Type: text/html'' @ [CR, LF] @
      ''Content-Length: 2'' @ [CR, LF] @ ''Connection: close'' @ [CR, LF] @
      ''Server: QuickServer/1.0'' @ [CR, LF] @ [CR, LF]"
    by (simp add: response_format_def dec_int_200 dec_nat_2)
  have short: "length (response_format 200 ''OK'' ''Content-Type: text/html'' 2) < MAX_BUFFER_SIZE"
    by (simp add: fmt MAX_BUFFER_SIZE_def)
  have two: "length ''hi'' = 2" by simp
  have body_short: "2 < MAX_BUFFER_SIZE" by (simp add: MAX_BUFFER_SIZE_def)
  note inst' = inst [unfolded msg two option.case]
  from inst' body_short
  have built: "build_http_response zero_response 200 ?ct (Some ''hi'') =
      Inr \<lparr>status_code = 200, status_message = ''OK'',
           response_headers =
             take (MAX_BUFFER_SIZE - 1) (response_format 200 ''OK'' ''Content-Type: text/html'' 2),
           response_body = ''hi'', content_length = 2\<rparr>"
    by blast
  from inst' short
  have whole: "take (MAX_BUFFER_SIZE - 1) (response_format 200 ''OK'' ''Content-Type: text/html'' 2) =
      response_format 200 ''OK'' ''Content-Type: text/html'' 2"
    by blast
  show ?thesis unfolding built fmt whole [unfolded fmt] by (rule refl)
qed

text \<open>
  With a content type of 1000 characters the formatted template has 1084 characters, and the
  headers field holds its first 1023 only.
\<close>

theorem build_http_response_truncates:
  "build_http_response zero_response 200 (Some (replicate 1000 (CHR ''a''))) (Some []) =
     Inr \<lparr>status_code = 200, status_message = ''OK'',
          response_headers =
            take 1023 (response_format 200 ''OK'' (replicate 1000 (CHR ''a'')) 0),
          response_body = [], content_length = 0\<rparr> \<and>
   take 1023 (response_format 200 ''OK'' (replicate 1000 (CHR ''a'')) 0) \<noteq>
     response_format 200 ''OK'' (replicate 1000 (CHR ''a'')) 0"
proof
  have "status_message_for 200 = ''OK''" by (simp add: status_message_for_def)
  then show "build_http_response zero_response 200 (Some (replicate 1000 (CHR ''a''))) (Some []) =
     Inr \<lparr>status_code = 200, status_message = ''OK'',
          response_headers =
            take 1023 (response_format 200 ''OK'' (replicate 1000 (CHR ''a'')) 0),
          response_body = [], content_length = 0\<rparr>"
    using build_http_response_value [of "[]" zero_response 200 "Some (replicate 1000 (CHR ''a''))"]
    by (simp add: MAX_BUFFER_SIZE_def)
next
  have len: "length (response_format 200 ''OK'' (replicate 1000 (CHR ''a'')) 0) = 1084"
    by (simp add: response_format_def dec_int_200 dec_nat_0)
  show "take 1023 (response_format 200 ''OK'' (replicate 1000 (CHR ''a'')) 0) \<noteq>
     response_format 200 ''OK'' (replicate 1000 (CHR ''a'')) 0"
  proof
    assume "take 1023 (response_format 200 ''OK'' (replicate 1000 (CHR ''a'')) 0) =
      response_format 200 ''OK'' (replicate 1000 (CHR ''a'')) 0"
    then have "length (take 1023 (response_format 200 ''OK'' (replicate 1000 (CHR ''a'')) 0)) =
      length (response_format 200 ''OK'' (replicate 1000 (CHR ''a'')) 0)"
      by simp
    with len show False by simp
  qed
qed

section \<open>Properties of the connection handler\<close>

lemma strncmp_prefix:
  "\<forall>c \<in> set lit. c \<noteq> NUL \<Longrightarrow>
     strncmp s lit (length lit) = 0 \<longleftrightarrow> take (length lit) s = lit"
proof (induction lit arbitrary: s)
  case Nil
  show ?case by simp
next
  case (Cons b bs)
  have z: "(of_char NUL :: nat) = 0" by (simp add: NUL_def)
  from Cons.prems have "b \<noteq> NUL" by simp
  then have "(of_char b :: nat) \<noteq> of_char NUL" by (simp only: of_char_eq_iff not_False_eq_True)
  with z have b: "of_char b \<noteq> (0::nat)" by simp
  show ?case
  proof (cases s)
    case Nil
    with b show ?thesis by simp
  next
    case (Cons a as)
    show ?thesis
    proof (cases "a = b")
      case True
      with Cons Cons.IH [of as] Cons.prems show ?thesis by simp
    next
      case False
      then have "(of_char a :: nat) \<noteq> of_char b" by simp
      with Cons False show ?thesis by simp
    qed
  qed
qed


lemma route_prefix:
  "route client_socket request =
     (if take 5 (path request) = ''/api/'' then ApiRequest client_socket request
      else StaticFile client_socket (path request))"
proof -
  have five: "length ''/api/'' = 5" by simp
  have "\<forall>c \<in> set ''/api/''. c \<noteq> NUL" by (simp add: NUL_def)
  from strncmp_prefix [OF this, of "path request", unfolded five]
  have "strncmp (path request) ''/api/'' 5 = 0 \<longleftrightarrow> take 5 (path request) = ''/api/''" .
  then show ?thesis by (simp add: route_def)
qed

lemma handle_client_connection_no_data:
  "receive_request env = Inr (n, buffer) \<Longrightarrow> n \<le> 0 \<Longrightarrow>
     handle_client_connection env client_socket (g, t) =
       Inr (g, t @ [Log ''INFO'' ''New connection from %s:%d'',
                    Recv client_socket (MAX_BUFFER_SIZE - 1),
                    Log ''ERROR'' ''Failed to receive data from client'',
                    Close client_socket])"
  by (simp add: handle_client_connection_def)

lemma handle_client_connection_bad_request:
  "receive_request env = Inr (n, buffer) \<Longrightarrow> 0 < n \<Longrightarrow>
   parse_http_request (heap_ok env) (Some buffer) (Some (stack_request env)) = Inr (rc, r) \<Longrightarrow>
   rc \<noteq> 0 \<Longrightarrow>
     handle_client_connection env client_socket (g, t) =
       Inr (g, t @ [Log ''INFO'' ''New connection from %s:%d'',
                    Recv client_socket (MAX_BUFFER_SIZE - 1),
                    Log ''DEBUG'' (''Received request:'' @ LF # ''%s''),
                    Log ''ERROR'' ''Failed to parse HTTP request'',
                    Close client_socket])"
  by (simp add: handle_client_connection_def)

lemma handle_client_connection_routed:
  "receive_request env = Inr (n, buffer) \<Longrightarrow> 0 < n \<Longrightarrow>
   parse_http_request (heap_ok env) (Some buffer) (Some (stack_request env)) =
     Inr (0, Some request) \<Longrightarrow>
     handle_client_connection env client_socket (g, t) =
       Inr (g, t @ [Log ''INFO'' ''New connection from %s:%d'',
                    Recv client_socket (MAX_BUFFER_SIZE - 1),
                    Log ''DEBUG'' (''Received request:'' @ LF # ''%s''),
                    route client_socket request,
                    Close client_socket])"
  by (simp add: handle_client_connection_def)

lemma handle_client_connection_outcome:
  "\<exists>mid. handle_client_connection env client_socket (g, t) =
           Inr (g, t @ mid @ [Close client_socket]) \<and>
         (\<forall>e \<in> set mid. \<forall>fd. e \<noteq> Accept fd \<and> e \<noteq> Close fd)"
proof -
  from receive_request_ok [of env] obtain n buffer where
    rr: "receive_request env = Inr (n, buffer)" by blast
  show ?thesis
  proof (cases "n \<le> 0")
    case True
    from handle_client_connection_no_data [OF rr True, of client_socket g t]
    show ?thesis
      by (intro exI [of _ "[Log ''INFO'' ''New connection from %s:%d'',
            Recv client_socket (MAX_BUFFER_SIZE - 1),
            Log ''ERROR'' ''Failed to receive data from client'']"]) simp
  next
    case False
    then have pos: "0 < n" by simp
    from parse_http_request_outcome [of "heap_ok env" "Some buffer" "Some (stack_request env)"]
    consider (bad) r where
        "parse_http_request (heap_ok env) (Some buffer) (Some (stack_request env)) = Inr (- 1, r)"
      | (good) q where
        "parse_http_request (heap_ok env) (Some buffer) (Some (stack_request env)) =
           Inr (0, Some q)"
      by blast
    then show ?thesis
    proof cases
      case bad
      from handle_client_connection_bad_request [OF rr pos bad, of client_socket g t]
      show ?thesis
        by (intro exI [of _ "[Log ''INFO'' ''New connection from %s:%d'',
              Recv client_socket (MAX_BUFFER_SIZE - 1),
              Log ''DEBUG'' (''Received request:'' @ LF # ''%s''),
              Log ''ERROR'' ''Failed to parse HTTP request'']"]) simp
    next
      case good
      from handle_client_connection_routed [OF rr pos good, of client_socket g t]
      show ?thesis
        by (intro exI [of _ "[Log ''INFO'' ''New connection from %s:%d'',
              Recv client_socket (MAX_BUFFER_SIZE - 1),
              Log ''DEBUG'' (''Received request:'' @ LF # ''%s''),
              route client_socket q]"]) (simp add: route_prefix)
    qed
  qed
qed

lemma cstr_received:
  "rest \<noteq> [] \<Longrightarrow> cstr ((got @ rest)[length got := NUL]) = cstr got"
proof -
  assume "rest \<noteq> []"
  then obtain x xs where rest: "rest = x # xs" by (cases rest) auto
  have upd: "(got @ rest)[length got := NUL] = got @ NUL # xs"
    by (simp add: rest list_update_append)
  show ?thesis
  proof (cases "\<forall>c \<in> set got. c \<noteq> NUL")
    case True
    then have a: "takeWhile (\<lambda>c. c \<noteq> NUL) (got @ NUL # xs) =
        got @ takeWhile (\<lambda>c. c \<noteq> NUL) (NUL # xs)"
      by (intro takeWhile_append2) simp
    from True have b: "takeWhile (\<lambda>c. c \<noteq> NUL) got = got" by simp
    show ?thesis unfolding cstr_def upd a b by simp
  next
    case False
    then obtain c where "c \<in> set got" "\<not> c \<noteq> NUL" by blast
    then have "takeWhile (\<lambda>c. c \<noteq> NUL) (got @ NUL # xs) = takeWhile (\<lambda>c. c \<noteq> NUL) got"
      by (rule takeWhile_append1)
    then show ?thesis by (simp add: cstr_def upd)
  qed
qed

lemma receive_request_data:
  assumes "pending env = Some bytes" and "bytes \<noteq> []"
  shows "\<exists>buffer. receive_request env =
           Inr (int (length (take (MAX_BUFFER_SIZE - 1) bytes)), buffer) \<and>
         cstr buffer = cstr (take (MAX_BUFFER_SIZE - 1) bytes)"
proof -
  let ?got = "take (MAX_BUFFER_SIZE - 1) bytes"
  let ?rest = "drop (length ?got) (replicate MAX_BUFFER_SIZE NUL)"
  have len: "length ?got \<le> MAX_BUFFER_SIZE - 1" by simp
  then have lt: "length ?got < MAX_BUFFER_SIZE" by (simp add: MAX_BUFFER_SIZE_def)
  then have rest: "?rest \<noteq> []" by (simp add: MAX_BUFFER_SIZE_def)
  from assms(2) have pos: "0 < length ?got" by (simp add: MAX_BUFFER_SIZE_def)
  have rv: "recv (pending env) (replicate MAX_BUFFER_SIZE NUL) (MAX_BUFFER_SIZE - 1) =
      Inr (int (length ?got), ?got @ ?rest)"
    by (simp add: recv_def assms(1) Let_def)
  have st: "store (?got @ ?rest) (int (length ?got)) NUL = Inr ((?got @ ?rest)[length ?got := NUL])"
    using lt by (simp add: store_def)
  from pos have "\<not> int (length ?got) \<le> 0" by simp
  with rv st have "receive_request env =
      Inr (int (length ?got), (?got @ ?rest)[length ?got := NUL])"
    by (simp add: receive_request_def Let_def del: length_take drop_replicate)
  with cstr_received [OF rest] show ?thesis by blast
qed

lemma parse_http_request_cstr:
  "cstr a = cstr b \<Longrightarrow>
     parse_http_request ok (Some a) request = parse_http_request ok (Some b) request"
  by (cases request) (simp_all add: parse_http_request_def strdup_def)

text \<open>
  C8. When the request has been received and parsed, \<^verbatim>\<open>handle_client_connection\<close> calls
  \<^verbatim>\<open>handle_api_request\<close> if the first five characters of the path are \<^verbatim>\<open>/api/\<close>, and
  \<^verbatim>\<open>serve_static_file\<close> with the path otherwise. On every path through the function the
  trace it adds holds exactly one \<^verbatim>\<open>close\<close>, of the client socket, as its last event.
\<close>

theorem handle_client_connection_routes:
  "(receive_request env = Inr (n, buffer) \<and> 0 < n \<and>
    parse_http_request (heap_ok env) (Some buffer) (Some (stack_request env)) =
      Inr (0, Some request) \<longrightarrow>
      handle_client_connection env client_socket (g, t) =
        Inr (g, t @ [Log ''INFO'' ''New connection from %s:%d'',
                     Recv client_socket (MAX_BUFFER_SIZE - 1),
                     Log ''DEBUG'' (''Received request:'' @ LF # ''%s''),
                     if take 5 (path request) = ''/api/''
                     then ApiRequest client_socket request
                     else StaticFile client_socket (path request),
                     Close client_socket])) \<and>
   (\<exists>new. handle_client_connection env client_socket (g, t) = Inr (g, t @ new) \<and>
      new \<noteq> [] \<and> last new = Close client_socket \<and>
      filter (\<lambda>e. \<exists>fd. e = Close fd) new = [Close client_socket])"
proof (intro conjI impI)
  assume "receive_request env = Inr (n, buffer) \<and> 0 < n \<and>
    parse_http_request (heap_ok env) (Some buffer) (Some (stack_request env)) =
      Inr (0, Some request)"
  then show "handle_client_connection env client_socket (g, t) =
        Inr (g, t @ [Log ''INFO'' ''New connection from %s:%d'',
                     Recv client_socket (MAX_BUFFER_SIZE - 1),
                     Log ''DEBUG'' (''Received request:'' @ LF # ''%s''),
                     if take 5 (path request) = ''/api/''
                     then ApiRequest client_socket request
                     else StaticFile client_socket (path request),
                     Close client_socket])"
    using handle_client_connection_routed [of env n buffer request client_socket g t]
    by (simp add: route_prefix)
next
  from handle_client_connection_outcome [of env client_socket g t] obtain mid where
    h: "handle_client_connection env client_socket (g, t) = Inr (g, t @ mid @ [Close client_socket])"
    and m: "\<forall>e \<in> set mid. \<forall>fd. e \<noteq> Accept fd \<and> e \<noteq> Close fd"
    by blast
  from m have "filter (\<lambda>e. \<exists>fd. e = Close fd) mid = []"
    by (auto simp: filter_empty_conv)
  then have "filter (\<lambda>e. \<exists>fd. e = Close fd) (mid @ [Close client_socket]) = [Close client_socket]"
    by simp
  with h show "\<exists>new. handle_client_connection env client_socket (g, t) = Inr (g, t @ new) \<and>
      new \<noteq> [] \<and> last new = Close client_socket \<and>
      filter (\<lambda>e. \<exists>fd. e = Close fd) new = [Close client_socket]"
    by (intro exI [of _ "mid @ [Close client_socket]"]) simp
qed

theorem handle_client_connection_routes_witness:
  "handle_client_connection
     \<lparr>pending = Some ''GET /api/users HTTP/1.1'', heap_ok = True, stack_request = zero_request\<rparr>
     7 (initial_globals, []) =
   Inr (initial_globals,
     [Log ''INFO'' ''New connection from %s:%d'', Recv 7 (MAX_BUFFER_SIZE - 1),
      Log ''DEBUG'' (''Received request:'' @ LF # ''%s''),
      ApiRequest 7 \<lparr>method = ''GET'', path = ''/api/users'', version = ''HTTP/1.1'',
                     headers = [], body = []\<rparr>,
      Close 7])"
proof -
  let ?env = "\<lparr>pending = Some ''GET /api/users HTTP/1.1'', heap_ok = True,
    stack_request = zero_request\<rparr>"
  let ?req = "\<lparr>method = ''GET'', path = ''/api/users'', version = ''HTTP/1.1'',
    headers = [], body = []\<rparr>"
  have "pending ?env = Some ''GET /api/users HTTP/1.1''" and "''GET /api/users HTTP/1.1'' \<noteq> []"
    by simp_all
  from receive_request_data [OF this] obtain buffer where
    rr: "receive_request ?env =
      Inr (int (length (take (MAX_BUFFER_SIZE - 1) ''GET /api/users HTTP/1.1'')), buffer)" and
    cs: "cstr buffer = cstr (take (MAX_BUFFER_SIZE - 1) ''GET /api/users HTTP/1.1'')"
    by blast
  have tk: "take (MAX_BUFFER_SIZE - 1) ''GET /api/users HTTP/1.1'' = ''GET /api/users HTTP/1.1''"
    by (simp add: MAX_BUFFER_SIZE_def)
  from rr [unfolded tk] have rr': "receive_request ?env = Inr (23, buffer)" by simp
  have "parse_http_request True (Some ''GET /api/users HTTP/1.1'') (Some zero_request) =
      Inr (0, Some ?req)"
    by code_simp
  with parse_http_request_cstr [OF cs [unfolded tk], of True "Some zero_request"]
  have pr: "parse_http_request (heap_ok ?env) (Some buffer) (Some (stack_request ?env)) =
      Inr (0, Some ?req)"
    by simp
  from handle_client_connection_routes [of ?env 23 buffer ?req 7 initial_globals "[]"] rr' pr
  show ?thesis by simp
qed

section \<open>Properties of the accept loop\<close>

lemma open_clients_append: "open_clients (t @ new) = foldl track (open_clients t) new"
  by (simp add: open_clients_def)

lemma track_no_accept:
  "\<forall>fd. e = Accept fd \<longrightarrow> fd < 0 \<Longrightarrow> length (track opened e) \<le> length opened"
proof (cases e)
  case (Close fd)
  have "length (remove1 fd opened) \<le> length opened"
    by (cases "fd \<in> set opened") (simp_all add: length_remove1 remove1_idem)
  with Close show ?thesis by simp
qed auto

lemma foldl_track_no_accept:
  "\<forall>e \<in> set new. \<forall>fd. e = Accept fd \<longrightarrow> fd < 0 \<Longrightarrow>
     length (foldl track opened new) \<le> length opened"
proof (induction new arbitrary: opened)
  case Nil
  show ?case by simp
next
  case (Cons e new)
  from Cons.prems have "length (track opened e) \<le> length opened"
    by (intro track_no_accept) simp
  moreover from Cons.prems have "length (foldl track (track opened e) new) \<le> length (track opened e)"
    by (intro Cons.IH) simp
  ultimately show ?case by simp
qed

lemma foldl_track_silent:
  "\<forall>e \<in> set mid. \<forall>fd. e \<noteq> Accept fd \<and> e \<noteq> Close fd \<Longrightarrow> foldl track opened mid = opened"
proof (induction mid arbitrary: opened)
  case Nil
  show ?case by simp
next
  case (Cons e mid)
  from Cons.prems have "track opened e = opened" by (cases e) auto
  with Cons show ?case by simp
qed

lemma prefixes_no_accept:
  assumes "\<forall>k. length (open_clients (take k t)) \<le> 1"
    and "\<forall>e \<in> set new. \<forall>fd. e = Accept fd \<longrightarrow> fd < 0"
  shows "\<forall>k. length (open_clients (take k (t @ new))) \<le> 1"
proof
  fix k
  have "\<forall>e \<in> set (take (k - length t) new). \<forall>fd. e = Accept fd \<longrightarrow> fd < 0"
    using assms(2) by (meson in_set_takeD)
  then have "length (foldl track (open_clients (take k t)) (take (k - length t) new))
      \<le> length (open_clients (take k t))"
    by (rule foldl_track_no_accept)
  also from assms(1) have "\<dots> \<le> 1" by simp
  finally show "length (open_clients (take k (t @ new))) \<le> 1"
    by (simp add: open_clients_append)
qed

lemma closed_no_accept:
  assumes "open_clients t = []" and "\<forall>e \<in> set new. \<forall>fd. e = Accept fd \<longrightarrow> fd < 0"
  shows "open_clients (t @ new) = []"
proof -
  from foldl_track_no_accept [OF assms(2), of "open_clients t"] assms(1)
  show ?thesis by (simp add: open_clients_append)
qed

lemma prefixes_accept:
  assumes "\<forall>k. length (open_clients (take k t)) \<le> 1" and "open_clients t = []"
  shows "\<forall>k. length (open_clients (take k (t @ [Accept fd]))) \<le> 1"
proof
  fix k
  show "length (open_clients (take k (t @ [Accept fd]))) \<le> 1"
  proof (cases "k \<le> length t")
    case True
    with assms(1) show ?thesis by simp
  next
    case False
    then have "take k (t @ [Accept fd]) = t @ [Accept fd]" by simp
    with assms(2) show ?thesis by (simp add: open_clients_append)
  qed
qed


lemma create_server_socket_trace:
  "\<exists>new. snd (create_server_socket env port_no t) = t @ new \<and>
         (\<forall>e \<in> set new. \<forall>fd. e = Accept fd \<longrightarrow> fd < 0)"
  by (simp add: create_server_socket_def Let_def)

lemma cleanup_and_exit_trace:
  "\<exists>new. snd (cleanup_and_exit sig (g, t)) = t @ new \<and>
         (\<forall>e \<in> set new. \<forall>fd. e = Accept fd \<longrightarrow> fd < 0)"
  by (simp add: cleanup_and_exit_def Let_def)

lemma cleanup_and_exit_globals:
  "client_count (fst (cleanup_and_exit sig (g, t))) = client_count g \<and>
   clients (fst (cleanup_and_exit sig (g, t))) = clients g"
  by (simp add: cleanup_and_exit_def Let_def)

lemma main_start_inv:
  assumes "server_inv s" and "pc s = Start"
  shows "server_inv (main_start argv1 env s)"
proof -
  from assms have pre: "\<forall>k. length (open_clients (take k (trace s))) \<le> 1"
    and closed: "open_clients (trace s) = []"
    and g: "client_count (glob s) = 0" "clients (glob s) = replicate MAX_CLIENTS zero_client"
    by (simp_all add: server_inv_def)
  let ?p = "case argv1 of None \<Rightarrow> DEFAULT_PORT | Some p \<Rightarrow> p"
  show ?thesis
  proof (cases "argv1 \<noteq> None \<and> (?p \<le> 0 \<or> ?p > 65535)")
    case True
    then have ms: "main_start argv1 env s =
        s\<lparr>pc := Exited EXIT_FAILURE, trace := trace s @ [Print ''Invalid port number: %s'']\<rparr>"
      by (simp add: main_start_def Let_def)
    have "\<forall>e \<in> set [Print ''Invalid port number: %s'']. \<forall>fd. e = Accept fd \<longrightarrow> fd < 0"
      by simp
    from prefixes_no_accept [OF pre this] g show ?thesis
      unfolding ms by (simp add: server_inv_def del: take_append)
  next
    case False
    obtain fd t' where c: "create_server_socket env ?p (trace s) = (fd, t')"
      by (cases "create_server_socket env ?p (trace s)")
    from create_server_socket_trace [of env ?p "trace s"] c obtain new where
      t': "t' = trace s @ new" and n: "\<forall>e \<in> set new. \<forall>fd. e = Accept fd \<longrightarrow> fd < 0"
      by auto
    have all: "\<forall>e \<in> set (new @ map Print msgs). \<forall>fd. e = Accept fd \<longrightarrow> fd < 0" for msgs
      using n by auto
    show ?thesis
    proof (cases "fd < 0")
      case True
      with False c t' have ms: "main_start argv1 env s =
          s\<lparr>pc := Exited EXIT_FAILURE, glob := (glob s)\<lparr>server_socket := fd\<rparr>,
            trace := trace s @ (new @ map Print [''Failed to create server socket''])\<rparr>"
        by (auto simp add: main_start_def Let_def)
      from prefixes_no_accept [OF pre all] g show ?thesis
        unfolding ms by (simp add: server_inv_def del: take_append append_assoc list.map)
    next
      case ok: False
      with False c t' have ms: "main_start argv1 env s =
          s\<lparr>pc := LoopHead, glob := (glob s)\<lparr>server_socket := fd\<rparr>,
            trace := trace s @ (new @ map Print [''QuickServer started successfully!'',
              ''Serving files from current directory'',
              ''Server listening on http://localhost:%d'',
              ''Press Ctrl+C to stop the server''])\<rparr>"
        by (auto simp add: main_start_def Let_def)
      from prefixes_no_accept [OF pre all] closed_no_accept [OF closed all] g show ?thesis
        unfolding ms by (simp add: server_inv_def del: take_append append_assoc list.map)
    qed
  qed
qed

lemma signalled_inv:
  assumes "server_inv s"
  shows "server_inv (signalled sig s)"
proof -
  from assms have pre: "\<forall>k. length (open_clients (take k (trace s))) \<le> 1"
    and g: "client_count (glob s) = 0" "clients (glob s) = replicate MAX_CLIENTS zero_client"
    by (simp_all add: server_inv_def)
  obtain g' t' where c: "cleanup_and_exit sig (glob s, trace s) = (g', t')"
    by (cases "cleanup_and_exit sig (glob s, trace s)")
  from cleanup_and_exit_trace [of sig "glob s" "trace s"] c obtain new where
    t': "t' = trace s @ new" and n: "\<forall>e \<in> set new. \<forall>fd. e = Accept fd \<longrightarrow> fd < 0"
    by auto
  from cleanup_and_exit_globals [of sig "glob s" "trace s"] c g
  have g': "client_count g' = 0" "clients g' = replicate MAX_CLIENTS zero_client" by simp_all
  from c t' have sg: "signalled sig s = s\<lparr>pc := Exited EXIT_SUCCESS, glob := g', trace := trace s @ new\<rparr>"
    by (simp add: signalled_def)
  from prefixes_no_accept [OF pre n] g' show ?thesis
    unfolding sg by (simp add: server_inv_def del: take_append)
qed

lemma after_loop_inv:
  assumes "server_inv s"
  shows "server_inv (case cleanup_and_exit 0 (glob s, trace s) of
           (g, t) \<Rightarrow> s\<lparr>pc := Exited EXIT_SUCCESS, glob := g, trace := t\<rparr>)"
  using signalled_inv [OF assms, of 0] by (simp add: signalled_def)

lemma accept_inv:
  assumes "server_inv s" and "pc s = LoopHead"
  shows "server_inv
     (if server_running (glob s) = 0 then s\<lparr>pc := AfterLoop\<rparr>
      else if client_socket < 0 then
        (if errno = EINTR then s\<lparr>trace := trace s @ [Accept client_socket]\<rparr>
         else s\<lparr>pc := AfterLoop,
                trace := trace s @ [Accept client_socket, Perror ''accept failed'']\<rparr>)
      else s\<lparr>pc := Handling client_socket, trace := trace s @ [Accept client_socket]\<rparr>)"
proof -
  from assms have pre: "\<forall>k. length (open_clients (take k (trace s))) \<le> 1"
    and closed: "open_clients (trace s) = []"
    and g: "client_count (glob s) = 0" "clients (glob s) = replicate MAX_CLIENTS zero_client"
    by (simp_all add: server_inv_def)
  show ?thesis
  proof (cases "client_socket < 0")
    case True
    then have a: "\<forall>e \<in> set [Accept client_socket]. \<forall>fd. e = Accept fd \<longrightarrow> fd < 0"
      and b: "\<forall>e \<in> set [Accept client_socket, Perror ''accept failed''].
               \<forall>fd. e = Accept fd \<longrightarrow> fd < 0"
      by simp_all
    from prefixes_no_accept [OF pre a] prefixes_no_accept [OF pre b]
      closed_no_accept [OF closed a] closed_no_accept [OF closed b] True assms g closed pre
    show ?thesis by (simp add: server_inv_def del: take_append)
  next
    case False
    from closed False have "open_clients (trace s @ [Accept client_socket]) = [client_socket]"
      by (simp add: open_clients_append)
    with prefixes_accept [OF pre closed, of client_socket] False assms g closed pre
    show ?thesis by (simp add: server_inv_def del: take_append)
  qed
qed

lemma handling_inv:
  assumes "server_inv s" and "pc s = Handling client_socket"
  shows "server_inv
     (case handle_client_connection env client_socket (glob s, trace s) of
        Inl e \<Rightarrow> s\<lparr>pc := Faulted e\<rparr>
      | Inr (g, t) \<Rightarrow> s\<lparr>pc := LoopHead, glob := g, trace := t\<rparr>)"
proof -
  from assms have pre: "\<forall>k. length (open_clients (take k (trace s))) \<le> 1"
    and opened: "open_clients (trace s) = [client_socket]"
    and g: "client_count (glob s) = 0" "clients (glob s) = replicate MAX_CLIENTS zero_client"
    by (simp_all add: server_inv_def)
  from handle_client_connection_outcome [of env client_socket "glob s" "trace s"] obtain mid where
    h: "handle_client_connection env client_socket (glob s, trace s) =
          Inr (glob s, trace s @ mid @ [Close client_socket])"
    and m: "\<forall>e \<in> set mid. \<forall>fd. e \<noteq> Accept fd \<and> e \<noteq> Close fd"
    by blast
  from m have n: "\<forall>e \<in> set (mid @ [Close client_socket]). \<forall>fd. e = Accept fd \<longrightarrow> fd < 0"
    by auto
  from foldl_track_silent [OF m, of "[client_socket]"] opened
  have "open_clients (trace s @ mid @ [Close client_socket]) = []"
    by (simp add: open_clients_append)
  with prefixes_no_accept [OF pre n] h g show ?thesis
    by (simp add: server_inv_def del: take_append append_assoc)
qed

lemma step_inv: "server_inv s \<Longrightarrow> server_inv (step inp s)"
proof -
  assume inv: "server_inv s"
  show ?thesis
  proof (cases "pc s")
    case Start
    with inv main_start_inv [OF inv] show ?thesis
      by (cases inp) (simp_all add: step.simps)
  next
    case LoopHead
    with inv accept_inv [OF inv] signalled_inv [OF inv] show ?thesis
      by (cases inp) (simp_all add: step.simps)
  next
    case (Handling client_socket)
    with inv handling_inv [OF inv] signalled_inv [OF inv] show ?thesis
      by (cases inp) (simp_all add: step.simps)
  next
    case AfterLoop
    with inv after_loop_inv [OF inv] signalled_inv [OF inv] show ?thesis
      by (cases inp) (simp_all add: step.simps)
  next
    case (Exited status)
    with inv show ?thesis by (simp add: step.simps)
  next
    case (Faulted e)
    with inv show ?thesis by (simp add: step.simps)
  qed
qed

lemma run_inv: "server_inv s \<Longrightarrow> server_inv (run inputs s)"
  by (induction inputs arbitrary: s) (simp_all add: step_inv)

lemma initial_server_inv: "server_inv initial_server"
  by (simp add: server_inv_def initial_server_def initial_globals_def open_clients_def)

lemma accept_when_closed:
  assumes "\<forall>k. length (open_clients (take k t)) \<le> 1"
    and "k < length t" and "t ! k = Accept fd" and "0 \<le> fd"
  shows "open_clients (take k t) = []"
proof -
  from assms(2) have "take (Suc k) t = take k t @ [t ! k]" by (rule take_Suc_conv_app_nth)
  with assms(3,4) have "open_clients (take (Suc k) t) = open_clients (take k t) @ [fd]"
    by (simp add: open_clients_append)
  moreover from assms(1) have "length (open_clients (take (Suc k) t)) \<le> 1" by blast
  ultimately show ?thesis by simp
qed

lemma handle_client_connection_cases:
  "\<exists>n buffer. receive_request env = Inr (n, buffer) \<and>
     (if n \<le> 0
      then handle_client_connection env client_socket (g, t) =
             Inr (g, t @ [Log ''INFO'' ''New connection from %s:%d'',
                          Recv client_socket (MAX_BUFFER_SIZE - 1),
                          Log ''ERROR'' ''Failed to receive data from client'',
                          Close client_socket])
      else \<exists>rc r.
             parse_http_request (heap_ok env) (Some buffer) (Some (stack_request env)) =
               Inr (rc, r) \<and>
             (if rc \<noteq> 0
              then handle_client_connection env client_socket (g, t) =
                     Inr (g, t @ [Log ''INFO'' ''New connection from %s:%d'',
                                  Recv client_socket (MAX_BUFFER_SIZE - 1),
                                  Log ''DEBUG'' (''Received request:'' @ LF # ''%s''),
                                  Log ''ERROR'' ''Failed to parse HTTP request'',
                                  Close client_socket])
              else \<exists>q. r = Some q \<and>
                     handle_client_connection env client_socket (g, t) =
                       Inr (g, t @ [Log ''INFO'' ''New connection from %s:%d'',
                                    Recv client_socket (MAX_BUFFER_SIZE - 1),
                                    Log ''DEBUG'' (''Received request:'' @ LF # ''%s''),
                                    if take 5 (path q) = ''/api/''
                                    then ApiRequest client_socket q
                                    else StaticFile client_socket (path q),
                                    Close client_socket])))"
proof -
  from receive_request_ok [of env] obtain n buffer where
    rr: "receive_request env = Inr (n, buffer)" by blast
  show ?thesis
  proof (cases "n \<le> 0")
    case True
    from handle_client_connection_no_data [OF rr True, of client_socket g t] rr True
    show ?thesis by (intro exI [of _ n] exI [of _ buffer]) simp
  next
    case False
    then have pos: "0 < n" by simp
    from parse_http_request_outcome [of "heap_ok env" "Some buffer" "Some (stack_request env)"]
    consider (bad) r where
        "parse_http_request (heap_ok env) (Some buffer) (Some (stack_request env)) = Inr (- 1, r)"
      | (good) q where
        "parse_http_request (heap_ok env) (Some buffer) (Some (stack_request env)) =
           Inr (0, Some q)"
      by blast
    then show ?thesis
    proof cases
      case bad
      have ne: "(- 1 :: int) \<noteq> 0" by simp
      from handle_client_connection_bad_request [OF rr pos bad ne, of client_socket g t]
        rr False bad
      show ?thesis
        by (intro exI [of _ n] exI [of _ buffer]) simp
    next
      case good
      from handle_client_connection_routed [OF rr pos good, of client_socket g t]
        rr False good
      show ?thesis
        by (intro exI [of _ n] exI [of _ buffer]) (simp add: route_prefix)
    qed
  qed
qed

text \<open>
  C1. Connections are handled one after the other, each to the end of
  \<^verbatim>\<open>handle_client_connection\<close>. In every state the server reaches, and after every prefix
  of the calls it has made, at most one accepted client socket is still open; at the head of
  the accept loop none is open, so each \<^verbatim>\<open>accept\<close> that returns a connection finds the
  one before it closed. While a connection is handled \<^verbatim>\<open>accept\<close> is not called, and the
  step that handles it makes exactly the calls of \<^verbatim>\<open>handle_client_connection\<close>: the
  request is received; when that fails, or parsing fails, the error is logged; otherwise the
  request is handed to \<^verbatim>\<open>handle_api_request\<close> or \<^verbatim>\<open>serve_static_file\<close>; in each case the
  client socket is closed last, and the server is back at the head of the loop. The process
  never faults.
\<close>

theorem sequential_connections:
  "(\<forall>k. length (open_clients (take k (trace (run inputs initial_server)))) \<le> 1) \<and>
   (pc (run inputs initial_server) = LoopHead \<longrightarrow>
      open_clients (trace (run inputs initial_server)) = []) \<and>
   (\<forall>client_socket. pc (run inputs initial_server) = Handling client_socket \<longrightarrow>
      open_clients (trace (run inputs initial_server)) = [client_socket] \<and>
      step (AcceptReturns fd errno) (run inputs initial_server) = run inputs initial_server \<and>
      pc (step (Connection env) (run inputs initial_server)) = LoopHead \<and>
      open_clients (trace (step (Connection env) (run inputs initial_server))) = [] \<and>
      (\<exists>n buffer. receive_request env = Inr (n, buffer) \<and>
         (if n \<le> 0
          then trace (step (Connection env) (run inputs initial_server)) =
                 trace (run inputs initial_server) @
                 [Log ''INFO'' ''New connection from %s:%d'',
                  Recv client_socket (MAX_BUFFER_SIZE - 1),
                  Log ''ERROR'' ''Failed to receive data from client'',
                  Close client_socket]
          else \<exists>rc r.
                 parse_http_request (heap_ok env) (Some buffer) (Some (stack_request env)) =
                   Inr (rc, r) \<and>
                 (if rc \<noteq> 0
                  then trace (step (Connection env) (run inputs initial_server)) =
                         trace (run inputs initial_server) @
                         [Log ''INFO'' ''New connection from %s:%d'',
                          Recv client_socket (MAX_BUFFER_SIZE - 1),
                          Log ''DEBUG'' (''Received request:'' @ LF # ''%s''),
                          Log ''ERROR'' ''Failed to parse HTTP request'',
                          Close client_socket]
                  else \<exists>q. r = Some q \<and>
                         trace (step (Connection env) (run inputs initial_server)) =
                           trace (run inputs initial_server) @
                           [Log ''INFO'' ''New connection from %s:%d'',
                            Recv client_socket (MAX_BUFFER_SIZE - 1),
                            Log ''DEBUG'' (''Received request:'' @ LF # ''%s''),
                            if take 5 (path q) = ''/api/''
                            then ApiRequest client_socket q
                            else StaticFile client_socket (path q),
                            Close client_socket])))) \<and>
   (\<forall>k fd. k < length (trace (run inputs initial_server)) \<and>
      trace (run inputs initial_server) ! k = Accept fd \<and> 0 \<le> fd \<longrightarrow>
      open_clients (take k (trace (run inputs initial_server))) = []) \<and>
   (\<forall>e. pc (run inputs initial_server) \<noteq> Faulted e)"
proof -
  let ?s = "run inputs initial_server"
  have inv: "server_inv ?s" by (rule run_inv) (rule initial_server_inv)
  then have pre: "\<forall>k. length (open_clients (take k (trace ?s))) \<le> 1"
    by (simp add: server_inv_def)
  from inv have head: "pc ?s = LoopHead \<longrightarrow> open_clients (trace ?s) = []"
    by (auto simp: server_inv_def)
  have handling: "open_clients (trace ?s) = [client_socket] \<and>
      step (AcceptReturns fd errno) ?s = ?s \<and>
      pc (step (Connection env) ?s) = LoopHead \<and>
      open_clients (trace (step (Connection env) ?s)) = [] \<and>
      (\<exists>n buffer. receive_request env = Inr (n, buffer) \<and>
         (if n \<le> 0
          then trace (step (Connection env) ?s) =
                 trace ?s @
                 [Log ''INFO'' ''New connection from %s:%d'',
                  Recv client_socket (MAX_BUFFER_SIZE - 1),
                  Log ''ERROR'' ''Failed to receive data from client'',
                  Close client_socket]
          else \<exists>rc r.
                 parse_http_request (heap_ok env) (Some buffer) (Some (stack_request env)) =
                   Inr (rc, r) \<and>
                 (if rc \<noteq> 0
                  then trace (step (Connection env) ?s) =
                         trace ?s @
                         [Log ''INFO'' ''New connection from %s:%d'',
                          Recv client_socket (MAX_BUFFER_SIZE - 1),
                          Log ''DEBUG'' (''Received request:'' @ LF # ''%s''),
                          Log ''ERROR'' ''Failed to parse HTTP request'',
                          Close client_socket]
                  else \<exists>q. r = Some q \<and>
                         trace (step (Connection env) ?s) =
                           trace ?s @
                           [Log ''INFO'' ''New connection from %s:%d'',
                            Recv client_socket (MAX_BUFFER_SIZE - 1),
                            Log ''DEBUG'' (''Received request:'' @ LF # ''%s''),
                            if take 5 (path q) = ''/api/''
                            then ApiRequest client_socket q
                            else StaticFile client_socket (path q),
                            Close client_socket])))"
    if h: "pc ?s = Handling client_socket" for client_socket
  proof -
    from inv h have one: "open_clients (trace ?s) = [client_socket]"
      by (simp add: server_inv_def)
    from h have stutter: "step (AcceptReturns fd errno) ?s = ?s"
      by (simp add: step.simps)
    have tr: "trace (step (Connection env) ?s) = t'"
      if "handle_client_connection env client_socket (glob ?s, trace ?s) = Inr (glob ?s, t')"
      for t'
      using that h by (simp add: step.simps)
    from handle_client_connection_outcome [of env client_socket "glob ?s" "trace ?s"]
    obtain mid where
      o: "handle_client_connection env client_socket (glob ?s, trace ?s) =
            Inr (glob ?s, trace ?s @ mid @ [Close client_socket])"
      by blast
    from h o have p: "pc (step (Connection env) ?s) = LoopHead"
      by (simp add: step.simps)
    from step_inv [OF inv, of "Connection env"] p
    have closed: "open_clients (trace (step (Connection env) ?s)) = []"
      by (simp add: server_inv_def)
    from handle_client_connection_cases [of env client_socket "glob ?s" "trace ?s"]
    obtain n buffer where rr: "receive_request env = Inr (n, buffer)"
      and c: "if n \<le> 0
      then handle_client_connection env client_socket (glob ?s, trace ?s) =
             Inr (glob ?s, trace ?s @ [Log ''INFO'' ''New connection from %s:%d'',
                          Recv client_socket (MAX_BUFFER_SIZE - 1),
                          Log ''ERROR'' ''Failed to receive data from client'',
                          Close client_socket])
      else \<exists>rc r.
             parse_http_request (heap_ok env) (Some buffer) (Some (stack_request env)) =
               Inr (rc, r) \<and>
             (if rc \<noteq> 0
              then handle_client_connection env client_socket (glob ?s, trace ?s) =
                     Inr (glob ?s, trace ?s @ [Log ''INFO'' ''New connection from %s:%d'',
                                  Recv client_socket (MAX_BUFFER_SIZE - 1),
                                  Log ''DEBUG'' (''Received request:'' @ LF # ''%s''),
                                  Log ''ERROR'' ''Failed to parse HTTP request'',
                                  Close client_socket])
              else \<exists>q. r = Some q \<and>
                     handle_client_connection env client_socket (glob ?s, trace ?s) =
                       Inr (glob ?s, trace ?s @ [Log ''INFO'' ''New connection from %s:%d'',
                                    Recv client_socket (MAX_BUFFER_SIZE - 1),
                                    Log ''DEBUG'' (''Received request:'' @ LF # ''%s''),
                                    if take 5 (path q) = ''/api/''
                                    then ApiRequest client_socket q
                                    else StaticFile client_socket (path q),
                                    Close client_socket]))"
      by blast
    have calls: "\<exists>n buffer. receive_request env = Inr (n, buffer) \<and>
         (if n \<le> 0
          then trace (step (Connection env) ?s) =
                 trace ?s @
                 [Log ''INFO'' ''New connection from %s:%d'',
                  Recv client_socket (MAX_BUFFER_SIZE - 1),
                  Log ''ERROR'' ''Failed to receive data from client'',
                  Close client_socket]
          else \<exists>rc r.
                 parse_http_request (heap_ok env) (Some buffer) (Some (stack_request env)) =
                   Inr (rc, r) \<and>
                 (if rc \<noteq> 0
                  then trace (step (Connection env) ?s) =
                         trace ?s @
                         [Log ''INFO'' ''New connection from %s:%d'',
                          Recv client_socket (MAX_BUFFER_SIZE - 1),
                          Log ''DEBUG'' (''Received request:'' @ LF # ''%s''),
                          Log ''ERROR'' ''Failed to parse HTTP request'',
                          Close client_socket]
                  else \<exists>q. r = Some q \<and>
                         trace (step (Connection env) ?s) =
                           trace ?s @
                           [Log ''INFO'' ''New connection from %s:%d'',
                            Recv client_socket (MAX_BUFFER_SIZE - 1),
                            Log ''DEBUG'' (''Received request:'' @ LF # ''%s''),
                            if take 5 (path q) = ''/api/''
                            then ApiRequest client_socket q
                            else StaticFile client_socket (path q),
                            Close client_socket]))"
    proof (cases "n \<le> 0")
      case True
      with c tr rr show ?thesis by (intro exI [of _ n] exI [of _ buffer]) simp
    next
      case False
      with c obtain rc r where
        pr: "parse_http_request (heap_ok env) (Some buffer) (Some (stack_request env)) =
               Inr (rc, r)"
        and c2: "if rc \<noteq> 0
              then handle_client_connection env client_socket (glob ?s, trace ?s) =
                     Inr (glob ?s, trace ?s @ [Log ''INFO'' ''New connection from %s:%d'',
                                  Recv client_socket (MAX_BUFFER_SIZE - 1),
                                  Log ''DEBUG'' (''Received request:'' @ LF # ''%s''),
                                  Log ''ERROR'' ''Failed to parse HTTP request'',
                                  Close client_socket])
              else \<exists>q. r = Some q \<and>
                     handle_client_connection env client_socket (glob ?s, trace ?s) =
                       Inr (glob ?s, trace ?s @ [Log ''INFO'' ''New connection from %s:%d'',
                                    Recv client_socket (MAX_BUFFER_SIZE - 1),
                                    Log ''DEBUG'' (''Received request:'' @ LF # ''%s''),
                                    if take 5 (path q) = ''/api/''
                                    then ApiRequest client_socket q
                                    else StaticFile client_socket (path q),
                                    Close client_socket])"
        by auto
      show ?thesis
      proof (cases "rc \<noteq> 0")
        case True
        with c2 tr rr pr False show ?thesis
          by (intro exI [of _ n] exI [of _ buffer]) simp
      next
        case zero: False
        with c2 obtain q where q: "r = Some q"
          and hq: "handle_client_connection env client_socket (glob ?s, trace ?s) =
                       Inr (glob ?s, trace ?s @ [Log ''INFO'' ''New connection from %s:%d'',
                                    Recv client_socket (MAX_BUFFER_SIZE - 1),
                                    Log ''DEBUG'' (''Received request:'' @ LF # ''%s''),
                                    if take 5 (path q) = ''/api/''
                                    then ApiRequest client_socket q
                                    else StaticFile client_socket (path q),
                                    Close client_socket])"
          by auto
        from tr [OF hq] rr pr False zero q show ?thesis
          by (intro exI [of _ n] exI [of _ buffer]) simp
      qed
    qed
    from one stutter p closed calls show ?thesis by blast
  qed
  from inv have nofault: "\<forall>e. pc ?s \<noteq> Faulted e"
    by (auto simp: server_inv_def)
  from pre head handling nofault accept_when_closed [OF pre] show ?thesis by blast
qed


theorem sequential_connections_witness:
  "open_clients (trace (run [Launch None sockets_ok, AcceptReturns 4 0, Connection no_data,
       AcceptReturns 5 0] initial_server)) = [5] \<and>
   open_clients (trace (run [Launch None sockets_ok, AcceptReturns 4 0, Connection no_data]
       initial_server)) = [] \<and>
   trace (step (Connection no_data)
       (run [Launch None sockets_ok, AcceptReturns 4 0] initial_server)) =
     trace (run [Launch None sockets_ok, AcceptReturns 4 0] initial_server) @
     [Log ''INFO'' ''New connection from %s:%d'', Recv 4 (MAX_BUFFER_SIZE - 1),
      Log ''ERROR'' ''Failed to receive data from client'', Close 4]"
proof -
  have handling5: "pc (run [Launch None sockets_ok, AcceptReturns 4 0, Connection no_data,
       AcceptReturns 5 0] initial_server) = Handling 5"
    by code_simp
  have head: "pc (run [Launch None sockets_ok, AcceptReturns 4 0, Connection no_data]
       initial_server) = LoopHead"
    by code_simp
  have handling4: "pc (run [Launch None sockets_ok, AcceptReturns 4 0] initial_server) =
       Handling 4"
    by code_simp
  have rr: "receive_request no_data = Inr (- 1, replicate MAX_BUFFER_SIZE NUL)"
    by (simp add: receive_request_def recv_def no_data_def)
  from sequential_connections [of "[Launch None sockets_ok, AcceptReturns 4 0,
      Connection no_data, AcceptReturns 5 0]" 0 0 no_data] handling5
  have one: "open_clients (trace (run [Launch None sockets_ok, AcceptReturns 4 0,
      Connection no_data, AcceptReturns 5 0] initial_server)) = [5]"
    by blast
  from sequential_connections [of "[Launch None sockets_ok, AcceptReturns 4 0,
      Connection no_data]" 0 0 no_data] head
  have two: "open_clients (trace (run [Launch None sockets_ok, AcceptReturns 4 0,
      Connection no_data] initial_server)) = []"
    by blast
  from sequential_connections [of "[Launch None sockets_ok, AcceptReturns 4 0]" 0 0 no_data]
    handling4
  obtain n buffer where "receive_request no_data = Inr (n, buffer)"
    and c: "if n \<le> 0
          then trace (step (Connection no_data)
                 (run [Launch None sockets_ok, AcceptReturns 4 0] initial_server)) =
                 trace (run [Launch None sockets_ok, AcceptReturns 4 0] initial_server) @
                 [Log ''INFO'' ''New connection from %s:%d'',
                  Recv 4 (MAX_BUFFER_SIZE - 1),
                  Log ''ERROR'' ''Failed to receive data from client'',
                  Close 4]
          else True"
    by (auto split: if_splits)
  with rr have "n = - 1" by simp
  with c have three: "trace (step (Connection no_data)
       (run [Launch None sockets_ok, AcceptReturns 4 0] initial_server)) =
     trace (run [Launch None sockets_ok, AcceptReturns 4 0] initial_server) @
     [Log ''INFO'' ''New connection from %s:%d'', Recv 4 (MAX_BUFFER_SIZE - 1),
      Log ''ERROR'' ''Failed to receive data from client'', Close 4]"
    by simp
  from one two three show ?thesis by blast
qed

text \<open>
  A connection on which \<^verbatim>\<open>recv\<close> fails is accepted, logged and closed, and the next
  \<^verbatim>\<open>accept\<close> follows: nothing is parsed and neither handler is called for it.
\<close>

theorem connection_closed_unanswered:
  "trace (run [Launch None sockets_ok, AcceptReturns 4 0, Connection no_data,
       AcceptReturns 5 0] initial_server) =
     [Log ''INFO'' ''Server listening on port %d'',
      Print ''QuickServer started successfully!'',
      Print ''Serving files from current directory'',
      Print ''Server listening on http://localhost:%d'',
      Print ''Press Ctrl+C to stop the server'',
      Accept 4,
      Log ''INFO'' ''New connection from %s:%d'',
      Recv 4 1023,
      Log ''ERROR'' ''Failed to receive data from client'',
      Close 4,
      Accept 5]"
  by code_simp

text \<open>
  C7. \<^verbatim>\<open>handle_client_connection\<close> returns with the globals it was called with:
  \<^verbatim>\<open>server_socket\<close>, \<^verbatim>\<open>server_running\<close>, \<^verbatim>\<open>clients\<close> and \<^verbatim>\<open>client_count\<close>
  are unchanged, and so is the global state across the step of the server that handles a
  connection. In every state the server reaches \<^verbatim>\<open>client_count\<close> is 0 and
  \<^verbatim>\<open>clients\<close> is the zero-initialised array it was at the start.
\<close>

theorem globals_unchanged:
  "(\<exists>new. handle_client_connection env client_socket (g, t) = Inr (g, t @ new)) \<and>
   (pc s = Handling client_socket \<longrightarrow> glob (step (Connection env) s) = glob s) \<and>
   client_count (glob (run inputs initial_server)) = 0 \<and>
   clients (glob (run inputs initial_server)) = replicate MAX_CLIENTS zero_client \<and>
   client_count initial_globals = 0 \<and>
   clients initial_globals = replicate MAX_CLIENTS zero_client"
proof (intro conjI impI)
  from handle_client_connection_outcome [of env client_socket g t]
  show "\<exists>new. handle_client_connection env client_socket (g, t) = Inr (g, t @ new)"
    by blast
next
  assume h: "pc s = Handling client_socket"
  from handle_client_connection_outcome [of env client_socket "glob s" "trace s"]
  obtain mid where
    "handle_client_connection env client_socket (glob s, trace s) =
       Inr (glob s, trace s @ mid @ [Close client_socket])"
    by blast
  with h show "glob (step (Connection env) s) = glob s"
    by (simp add: step.simps)
next
  have inv: "server_inv (run inputs initial_server)" by (rule run_inv) (rule initial_server_inv)
  then show "client_count (glob (run inputs initial_server)) = 0"
    by (simp add: server_inv_def)
  from inv show "clients (glob (run inputs initial_server)) = replicate MAX_CLIENTS zero_client"
    by (simp add: server_inv_def)
next
  show "client_count initial_globals = 0" by (simp add: initial_globals_def)
  show "clients initial_globals = replicate MAX_CLIENTS zero_client"
    by (simp add: initial_globals_def)
qed

theorem globals_unchanged_witness:
  "glob (step (Connection no_data) \<lparr>pc = Handling 4, glob = initial_globals, trace = []\<rparr>) =
     initial_globals \<and>
   client_count (glob (run [Launch None sockets_ok, AcceptReturns 4 0, Connection no_data]
     initial_server)) = 0"
  using globals_unchanged [of no_data 4 initial_globals "[]"
      "\<lparr>pc = Handling 4, glob = initial_globals, trace = []\<rparr>"
      "[Launch None sockets_ok, AcceptReturns 4 0, Connection no_data]"]
  by simp

end
